theory Spec2Isabelle
  imports Main "HOL-Library.Sublist"
begin

section \<open>JavaScript strings and numbers\<close>

text \<open>
  Strings are lists of characters. A \<^typ>\<open>char\<close> stands for the JavaScript code
  unit of the same number, from 0 to 255 (Latin-1); strings with other code units are
  outside the model. Numbers are mathematical integers; JavaScript's doubles agree
  with them below \<open>2 ^ 53\<close>.
\<close>

definition digitChars :: string where
  "digitChars = ''0123456789''"

definition isDigit :: "char \<Rightarrow> bool" where
  "isDigit c = (c \<in> set digitChars)"

definition digitVal :: "char \<Rightarrow> nat" where
  "digitVal c = (case map_of (zip digitChars [0 ..< 10]) c of Some d \<Rightarrow> d | None \<Rightarrow> 0)"

text \<open>\<open>String(n)\<close> for a non-negative integer \<open>n\<close>: its decimal digits.\<close>

function showNat :: "nat \<Rightarrow> string" where
  "showNat n = (if n < 10 then [digitChars ! n] else showNat (n div 10) @ [digitChars ! (n mod 10)])"
  by pat_completeness auto
termination
  by (relation "measure id") auto

declare showNat.simps [simp del]

text \<open>The value of a digit string, most significant digit first.\<close>

definition readNat :: "string \<Rightarrow> nat" where
  "readNat s = foldl (\<lambda>a c. 10 * a + digitVal c) 0 s"

text \<open>\<open>Array.prototype.join\<close> on an array of strings.\<close>

fun join :: "string list \<Rightarrow> string \<Rightarrow> string" where
  "join [] sep = []"
| "join [x] sep = x"
| "join (x # y # ys) sep = x @ sep @ join (y # ys) sep"

text \<open>
  \<open>toLowerCase\<close> on code units below 256: the letters \<open>A\<close> to \<open>Z\<close> and the
  Latin-1 capitals U+00C0 to U+00DE, the multiplication sign U+00D7 apart.
\<close>

definition upperChars :: string where
  "upperChars =
     ''ABCDEFGHIJKLMNOPQRSTUVWXYZ'' @
       [CHR 0xC0, CHR 0xC1, CHR 0xC2, CHR 0xC3, CHR 0xC4, CHR 0xC5, CHR 0xC6, CHR 0xC7,
        CHR 0xC8, CHR 0xC9, CHR 0xCA, CHR 0xCB, CHR 0xCC, CHR 0xCD, CHR 0xCE, CHR 0xCF,
        CHR 0xD0, CHR 0xD1, CHR 0xD2, CHR 0xD3, CHR 0xD4, CHR 0xD5, CHR 0xD6, CHR 0xD8,
        CHR 0xD9, CHR 0xDA, CHR 0xDB, CHR 0xDC, CHR 0xDD, CHR 0xDE]"

definition lowerChars :: string where
  "lowerChars =
     ''abcdefghijklmnopqrstuvwxyz'' @
       [CHR 0xE0, CHR 0xE1, CHR 0xE2, CHR 0xE3, CHR 0xE4, CHR 0xE5, CHR 0xE6, CHR 0xE7,
        CHR 0xE8, CHR 0xE9, CHR 0xEA, CHR 0xEB, CHR 0xEC, CHR 0xED, CHR 0xEE, CHR 0xEF,
        CHR 0xF0, CHR 0xF1, CHR 0xF2, CHR 0xF3, CHR 0xF4, CHR 0xF5, CHR 0xF6, CHR 0xF8,
        CHR 0xF9, CHR 0xFA, CHR 0xFB, CHR 0xFC, CHR 0xFD, CHR 0xFE]"

definition lowerChar :: "char \<Rightarrow> char" where
  "lowerChar c = (case map_of (zip upperChars lowerChars) c of Some d \<Rightarrow> d | None \<Rightarrow> c)"

definition toLowerCase :: "string \<Rightarrow> string" where
  "toLowerCase s = map lowerChar s"

text \<open>\<open>s.startsWith(p)\<close> and \<open>s.includes(p)\<close>.\<close>

fun startsWith :: "string \<Rightarrow> string \<Rightarrow> bool" where
  "startsWith s [] = True"
| "startsWith [] (p # ps) = False"
| "startsWith (c # cs) (p # ps) = (c = p \<and> startsWith cs ps)"

fun includesStr :: "string \<Rightarrow> string \<Rightarrow> bool" where
  "includesStr [] p = (p = [])"
| "includesStr (c # cs) p = (startsWith (c # cs) p \<or> includesStr cs p)"

text \<open>A JavaScript value is truthy when it is neither \<open>undefined\<close> nor the empty string.\<close>

definition truthy :: "string option \<Rightarrow> bool" where
  "truthy v = (case v of None \<Rightarrow> False | Some s \<Rightarrow> s \<noteq> [])"

section \<open>The snapshot tree\<close>

text \<open>
  A snapshot node as \<open>extractDOM.js\<close> builds it: \<open>tag\<close> and \<open>classes\<close> are always
  present, \<open>id\<close> and every style may be \<open>undefined\<close> (\<open>None\<close>), \<open>children\<close> is an
  array of nodes. The snapshot is the deserialised result of \<open>page.evaluate\<close>, a tree
  without shared objects; a \<open>null\<close> tree is \<open>None\<close>.
\<close>

type_synonym rect = "(string \<times> int) list"

datatype node = Node
  (tag: string)
  (ident: "string option")
  (classes: "string list")
  (attributes: "(string \<times> string) list")
  (rect: rect)
  (styles: "(string \<times> string) list option")
  (children: "node list")

text \<open>\<open>node.styles?.prop\<close>.\<close>

definition style :: "node \<Rightarrow> string \<Rightarrow> string option" where
  "style n prop = (case styles n of None \<Rightarrow> None | Some st \<Rightarrow> map_of st prop)"

text \<open>\<open>node.children?.length || 0\<close>.\<close>

definition childCount :: "node \<Rightarrow> nat" where
  "childCount n = length (children n)"

text \<open>A child is smaller than its parent, so every walk over the children terminates.\<close>

lemma size_child [termination_simp]: "c \<in> set (children n) \<Longrightarrow> size c < size n"
  by (cases n) (auto simp: less_Suc_eq_le dest: size_list_estimation')

section \<open>UIAnalyzer: helper methods\<close>

definition generateComponentSignature :: "node option \<Rightarrow> string" where
  "generateComponentSignature node =
     (case node of
        None \<Rightarrow> []
      | Some n \<Rightarrow> tag n @ '':'' @ join (classes n) ''.'' @ '':'' @ showNat (childCount n))"

text \<open>
  \<open>hasInteractiveElements\<close>: the node's own tag is tested first, then its children,
  recursively (\<open>children.some\<close>). The helpers below are only called on nodes, never
  on \<open>null\<close>: every walk returns before them on a \<open>null\<close> node.
\<close>

definition interactiveTags :: "string list" where
  "interactiveTags = [''button'', ''a'', ''input'', ''select'', ''textarea'']"

fun hasInteractiveElements :: "node \<Rightarrow> bool" where
  "hasInteractiveElements n =
     (if tag n \<in> set interactiveTags then True
      else list_ex hasInteractiveElements (children n))"

declare hasInteractiveElements.simps [simp del]

definition isComponentLike :: "node \<Rightarrow> bool" where
  "isComponentLike n =
     (let hasId = truthy (ident n);
          hasClasses = (classes n \<noteq> []);
          hasChildren = (children n \<noteq> []);
          isInteractive = hasInteractiveElements n
      in (hasId \<or> hasClasses) \<and> (hasChildren \<or> isInteractive))"

text \<open>\<open>node.id || ''\<close>.\<close>

definition idOrEmpty :: "string option \<Rightarrow> string" where
  "idOrEmpty i = (case i of None \<Rightarrow> [] | Some s \<Rightarrow> s)"

definition isAlnum :: "char \<Rightarrow> bool" where
  "isAlnum c =
     (c \<in> set ''abcdefghijklmnopqrstuvwxyzABCDEFGHIJKLMNOPQRSTUVWXYZ0123456789'')"

definition generateComponentName :: "node \<Rightarrow> string" where
  "generateComponentName n =
     (if truthy (ident n) then idOrEmpty (ident n)
      else if classes n \<noteq> [] then filter isAlnum (hd (classes n))
      else tag n @ ''Component'')"

definition estimateComponentType :: "node \<Rightarrow> string" where
  "estimateComponentType n =
     (let t = toLowerCase (tag n);
          cls = toLowerCase (join (classes n) '' '');
          i = toLowerCase (idOrEmpty (ident n))
      in if t = ''button'' \<or> includesStr cls ''button'' \<or> includesStr i ''btn'' then ''button''
         else if t = ''nav'' \<or> includesStr cls ''nav'' \<or> includesStr cls ''menu'' then ''navigation''
         else if t = ''form'' \<or> includesStr cls ''form'' then ''form''
         else if t = ''input'' \<or> t = ''select'' \<or> t = ''textarea'' then ''input''
         else if t = ''img'' \<or> t = ''picture'' then ''image''
         else if t = ''card'' \<or> includesStr cls ''card'' then ''card''
         else if t = ''modal'' \<or> includesStr cls ''modal'' \<or> includesStr cls ''dialog'' then ''modal''
         else if t = ''header'' \<or> includesStr i ''header'' then ''header''
         else if t = ''footer'' \<or> includesStr i ''footer'' then ''footer''
         else if t = ''aside'' \<or> includesStr i ''sidebar'' then ''sidebar''
         else ''container'')"

definition identifySectionPurpose :: "node \<Rightarrow> string" where
  "identifySectionPurpose n =
     (let t = toLowerCase (tag n);
          cls = toLowerCase (join (classes n) '' '');
          i = toLowerCase (idOrEmpty (ident n))
      in if t = ''header'' \<or> includesStr i ''header'' then ''header''
         else if t = ''nav'' \<or> includesStr cls ''nav'' then ''navigation''
         else if t = ''main'' \<or> includesStr i ''main'' then ''main-content''
         else if t = ''aside'' \<or> includesStr i ''sidebar'' then ''sidebar''
         else if t = ''footer'' \<or> includesStr i ''footer'' then ''footer''
         else if t = ''section'' \<or> t = ''article'' then ''content-section''
         else ''unknown'')"

section \<open>UIAnalyzer: the component scan\<close>

record componentRecord =
  name :: string
  tagC :: string
  idC :: "string option"
  classesC :: "string list"
  signature :: string
  childCountC :: nat
  hasInteractiveElementsC :: bool
  estimatedType :: string

definition componentOf :: "node \<Rightarrow> componentRecord" where
  "componentOf n =
     \<lparr> name = generateComponentName n,
       tagC = tag n,
       idC = ident n,
       classesC = classes n,
       signature = generateComponentSignature (Some n),
       childCountC = childCount n,
       hasInteractiveElementsC = hasInteractiveElements n,
       estimatedType = estimateComponentType n \<rparr>"

text \<open>
  \<open>analyzeComponentStructure\<close> keeps a \<open>visited\<close> set of node objects. In a tree
  without shared objects a node object is its position, the list of child indices
  leading to it from the root, and that is what the model stores in \<open>visited\<close>. The
  \<open>path\<close> string the source passes down is never read and is left out.
\<close>

type_synonym position = "nat list"

fun traverseNodeC ::
  "node \<Rightarrow> position \<Rightarrow> position list \<times> componentRecord list
     \<Rightarrow> position list \<times> componentRecord list" where
  "traverseNodeC n pos (visited, components) =
     (if pos \<in> set visited then (visited, components)
      else fold (\<lambda>k. traverseNodeC (children n ! k) (pos @ [k])) [0 ..< length (children n)]
             (pos # visited,
              if isComponentLike n then components @ [componentOf n] else components))"

declare traverseNodeC.simps [simp del]

definition analyzeComponentStructure :: "node option \<Rightarrow> componentRecord list" where
  "analyzeComponentStructure domData =
     (case domData of
        None \<Rightarrow> []
      | Some n \<Rightarrow> snd (traverseNodeC n [] ([], [])))"

section \<open>UIAnalyzer: the layout scan\<close>

datatype layout =
  Flex (direction: string) (justifyContent: "string option") (alignItems: "string option")
    (gapF: "string option")
| Grid (columns: "string option") (rows: "string option") (gapG: "string option")
| Block (width: "string option") (height: "string option")

definition detectLayout :: "node \<Rightarrow> layout option" where
  "detectLayout n =
     (let display = style n ''display'';
          flexDirection = style n ''flexDirection'';
          gridTemplateColumns = style n ''gridTemplateColumns''
      in if display = Some ''flex'' then
           Some (Flex (if truthy flexDirection then idOrEmpty flexDirection else ''row'')
                   (style n ''justifyContent'') (style n ''alignItems'') (style n ''gap''))
         else if display = Some ''grid'' then
           Some (Grid gridTemplateColumns (style n ''gridTemplateRows'') (style n ''gap''))
         else if display = Some ''block'' \<or> display = Some ''inline-block'' then
           Some (Block (style n ''width'') (style n ''height''))
         else None)"

record layoutRecord =
  tagL :: string
  idL :: "string option"
  classesL :: "string list"
  layoutL :: layout
  childCountL :: nat

definition layoutOf :: "node \<Rightarrow> layout \<Rightarrow> layoutRecord" where
  "layoutOf n l =
     \<lparr> tagL = tag n, idL = ident n, classesL = classes n, layoutL = l,
       childCountL = childCount n \<rparr>"

definition pushLayout :: "node \<Rightarrow> layoutRecord list \<Rightarrow> layoutRecord list" where
  "pushLayout n layouts =
     (case detectLayout n of None \<Rightarrow> layouts | Some l \<Rightarrow> layouts @ [layoutOf n l])"

fun traverseNodeL :: "node \<Rightarrow> layoutRecord list \<Rightarrow> layoutRecord list" where
  "traverseNodeL n layouts = fold traverseNodeL (children n) (pushLayout n layouts)"

declare traverseNodeL.simps [simp del]

definition analyzeLayoutPatterns :: "node option \<Rightarrow> layoutRecord list" where
  "analyzeLayoutPatterns domData =
     (case domData of None \<Rightarrow> [] | Some n \<Rightarrow> traverseNodeL n [])"

section \<open>UIAnalyzer: the token scan\<close>

text \<open>
  A JavaScript \<open>Set\<close> of strings keeps its elements in insertion order and
  \<open>Array.from\<close> lists them in that order.
\<close>

definition setAdd :: "string list \<Rightarrow> string \<Rightarrow> string list" where
  "setAdd xs x = (if x \<in> set xs then xs else xs @ [x])"

record designTokens =
  colors :: "string list"
  fontSizes :: "string list"
  fontWeights :: "string list"
  spacing :: "string list"
  borderRadii :: "string list"
  shadows :: "string list"

definition emptyTokens :: designTokens where
  "emptyTokens =
     \<lparr> colors = [], fontSizes = [], fontWeights = [], spacing = [], borderRadii = [],
       shadows = [] \<rparr>"

text \<open>\<open>if (v && v !== excluded) add(v)\<close>; with no excluded value, \<open>if (v) add(v)\<close>.\<close>

definition addIf :: "string option \<Rightarrow> string option \<Rightarrow> string list \<Rightarrow> string list" where
  "addIf v excluded xs =
     (if truthy v \<and> v \<noteq> excluded then setAdd xs (idOrEmpty v) else xs)"

definition collectTokens :: "node \<Rightarrow> designTokens \<Rightarrow> designTokens" where
  "collectTokens n tokens =
     (case styles n of
        None \<Rightarrow> tokens
      | Some st \<Rightarrow>
          \<lparr> colors =
              addIf (map_of st ''color'') None
                (addIf (map_of st ''backgroundColor'') (Some ''rgba(0, 0, 0, 0)'')
                   (colors tokens)),
            fontSizes = addIf (map_of st ''fontSize'') None (fontSizes tokens),
            fontWeights = addIf (map_of st ''fontWeight'') None (fontWeights tokens),
            spacing =
              addIf (map_of st ''margin'') None
                (addIf (map_of st ''padding'') None (spacing tokens)),
            borderRadii = addIf (map_of st ''borderRadius'') (Some ''0px'') (borderRadii tokens),
            shadows = addIf (map_of st ''boxShadow'') (Some ''none'') (shadows tokens) \<rparr>)"

fun traverseNodeT :: "node \<Rightarrow> designTokens \<Rightarrow> designTokens" where
  "traverseNodeT n tokens = fold traverseNodeT (children n) (collectTokens n tokens)"

declare traverseNodeT.simps [simp del]

definition extractDesignTokens :: "node option \<Rightarrow> designTokens" where
  "extractDesignTokens domData =
     (case domData of None \<Rightarrow> emptyTokens | Some n \<Rightarrow> traverseNodeT n emptyTokens)"

section \<open>UIAnalyzer: the pattern scan\<close>

text \<open>
  \<open>nodeSignatures\<close> and \<open>patterns\<close> are plain objects used as dictionaries; their keys
  are signatures, which always contain a colon, so they are never array indices, nor
  names of inherited properties, and \<open>Object.entries\<close> lists them in insertion order.
  An association list in insertion order models each.
\<close>

fun pushSignature :: "(string \<times> node list) list \<Rightarrow> string \<Rightarrow> node \<Rightarrow> (string \<times> node list) list" where
  "pushSignature [] sig n = [(sig, [n])]"
| "pushSignature ((k, ns) # rest) sig n =
     (if k = sig then (k, ns @ [n]) # rest else (k, ns) # pushSignature rest sig n)"

fun traverseNodeP :: "node \<Rightarrow> (string \<times> node list) list \<Rightarrow> (string \<times> node list) list" where
  "traverseNodeP n nodeSignatures =
     fold traverseNodeP (children n)
       (pushSignature nodeSignatures (generateComponentSignature (Some n)) n)"

declare traverseNodeP.simps [simp del]

record example =
  tagE :: string
  idE :: "string option"
  classesE :: "string list"

definition exampleOf :: "node \<Rightarrow> example" where
  "exampleOf n = \<lparr> tagE = tag n, idE = ident n, classesE = classes n \<rparr>"

record pattern =
  count :: nat
  examples :: "example list"

definition patternOf :: "node list \<Rightarrow> pattern" where
  "patternOf nodes = \<lparr> count = length nodes, examples = map exampleOf (take 3 nodes) \<rparr>"

definition repeatedOnly :: "(string \<times> node list) list \<Rightarrow> (string \<times> pattern) list" where
  "repeatedOnly nodeSignatures =
     map (\<lambda>(sig, nodes). (sig, patternOf nodes))
       (filter (\<lambda>(sig, nodes). length nodes > 1) nodeSignatures)"

definition detectRepeatedPatterns :: "node option \<Rightarrow> (string \<times> pattern) list" where
  "detectRepeatedPatterns domData =
     repeatedOnly (case domData of None \<Rightarrow> [] | Some n \<Rightarrow> traverseNodeP n [])"

section \<open>UIAnalyzer: the section scan\<close>

definition sectionSelectors :: "string list" where
  "sectionSelectors =
     [''header'', ''nav'', ''main'', ''section'', ''article'', ''aside'', ''footer'',
      ''[role=\"navigation\"]'', ''[role=\"main\"]'', ''[role=\"contentinfo\"]'']"

record sectionRecord =
  tagS :: string
  idS :: "string option"
  classesS :: "string list"
  rectS :: rect
  childCountS :: nat
  purpose :: string

definition sectionOf :: "node \<Rightarrow> sectionRecord" where
  "sectionOf n =
     \<lparr> tagS = tag n, idS = ident n, classesS = classes n, rectS = rect n,
       childCountS = childCount n, purpose = identifySectionPurpose n \<rparr>"

definition pushSection :: "node \<Rightarrow> sectionRecord list \<Rightarrow> sectionRecord list" where
  "pushSection n sections =
     (if tag n \<in> set sectionSelectors then sections @ [sectionOf n] else sections)"

fun traverseNodeS :: "node \<Rightarrow> nat \<Rightarrow> sectionRecord list \<Rightarrow> sectionRecord list" where
  "traverseNodeS n depth sections =
     (if depth > 10 then sections
      else fold (\<lambda>child. traverseNodeS child (depth + 1)) (children n) (pushSection n sections))"

declare traverseNodeS.simps [simp del]

definition identifyPageSections :: "node option \<Rightarrow> sectionRecord list" where
  "identifyPageSections domData =
     (case domData of None \<Rightarrow> [] | Some n \<Rightarrow> traverseNodeS n 0 [])"

section \<open>UIAnalyzer: the report\<close>

text \<open>
  \<open>new Date().toISOString()\<close> reads the clock; the reading is an argument of the
  model.
\<close>

record analysisReport =
  components :: "componentRecord list"
  layouts :: "layoutRecord list"
  designTokensR :: designTokens
  repeatedPatterns :: "(string \<times> pattern) list"
  sections :: "sectionRecord list"
  timestamp :: string

definition generateAnalysisReport :: "string \<Rightarrow> node option \<Rightarrow> analysisReport" where
  "generateAnalysisReport now domData =
     \<lparr> components = analyzeComponentStructure domData,
       layouts = analyzeLayoutPatterns domData,
       designTokensR = extractDesignTokens domData,
       repeatedPatterns = detectRepeatedPatterns domData,
       sections = identifyPageSections domData,
       timestamp = now \<rparr>"

section \<open>UIAnalyzer: the entry points on any value\<close>













section \<open>StyleExtractor: the fixed dictionaries\<close>

text \<open>
  The dictionaries are object literals; their keys are not array indices, so
  \<open>Object.entries\<close> lists them as written. A property read \<open>map[key]\<close> also finds
  what the object inherits from \<open>Object.prototype\<close>; such a value is a function or an
  object, not a token string, and it is truthy.
\<close>

definition buildColorMap :: "(string \<times> string) list" where
  "buildColorMap =
     [(''#000000'', ''black''), (''#ffffff'', ''white''), (''#f3f4f6'', ''gray-100''),
      (''#e5e7eb'', ''gray-200''), (''#d1d5db'', ''gray-300''), (''#9ca3af'', ''gray-400''),
      (''#6b7280'', ''gray-500''), (''#4b5563'', ''gray-600''), (''#374151'', ''gray-700''),
      (''#1f2937'', ''gray-800''), (''#111827'', ''gray-900''), (''#3b82f6'', ''blue-500''),
      (''#2563eb'', ''blue-600''), (''#1d4ed8'', ''blue-700''), (''#ef4444'', ''red-500''),
      (''#dc2626'', ''red-600''), (''#b91c1c'', ''red-700''), (''#10b981'', ''green-500''),
      (''#059669'', ''green-600''), (''#047857'', ''green-700''), (''#f59e0b'', ''amber-500''),
      (''#d97706'', ''amber-600''), (''#b45309'', ''amber-700'')]"

definition buildSpacingMap :: "(string \<times> string) list" where
  "buildSpacingMap =
     [(''0px'', ''0''), (''4px'', ''1''), (''8px'', ''2''), (''12px'', ''3''),
      (''16px'', ''4''), (''20px'', ''5''), (''24px'', ''6''), (''28px'', ''7''),
      (''32px'', ''8''), (''36px'', ''9''), (''40px'', ''10''), (''44px'', ''11''),
      (''48px'', ''12''), (''64px'', ''16''), (''80px'', ''20''), (''96px'', ''24'')]"

definition buildFontSizeMap :: "(string \<times> string) list" where
  "buildFontSizeMap =
     [(''12px'', ''xs''), (''14px'', ''sm''), (''16px'', ''base''), (''18px'', ''lg''),
      (''20px'', ''xl''), (''24px'', ''2xl''), (''30px'', ''3xl''), (''36px'', ''4xl''),
      (''48px'', ''5xl'')]"

datatype jsval = Str string | Inherited string

definition objectPrototypeKeys :: "string list" where
  "objectPrototypeKeys =
     [''constructor'', ''__defineGetter__'', ''__defineSetter__'', ''hasOwnProperty'',
      ''__lookupGetter__'', ''__lookupSetter__'', ''isPrototypeOf'', ''propertyIsEnumerable'',
      ''toString'', ''valueOf'', ''__proto__'', ''toLocaleString'']"

definition getProp :: "(string \<times> string) list \<Rightarrow> string \<Rightarrow> jsval option" where
  "getProp obj key =
     (case map_of obj key of
        Some v \<Rightarrow> Some (Str v)
      | None \<Rightarrow> if key \<in> set objectPrototypeKeys then Some (Inherited key) else None)"

section \<open>StyleExtractor: colors\<close>

text \<open>
  \<open>\s\<close>, and the white space \<open>parseInt\<close> skips, on code units below 256: space,
  tab, line feed, vertical tab, form feed, carriage return and the no-break space
  U+00A0.
\<close>

definition isSpace :: "char \<Rightarrow> bool" where
  "isSpace c =
     (c \<in> set [CHR '' '', CHR 0x09, CHR 0x0A, CHR 0x0B, CHR 0x0C, CHR 0x0D, CHR 0xA0])"

text \<open>
  One number of the pattern followed by a literal: \<open>(\d+)\<close> takes the longest run of
  digits, which must not be empty, and the literal must come next. Backtracking
  cannot help, since a shorter run is followed by a digit.
\<close>

definition digitsThen :: "string \<Rightarrow> char \<Rightarrow> (string \<times> string) option" where
  "digitsThen s lit =
     (let ds = takeWhile isDigit s in
      if ds = [] then None
      else case dropWhile isDigit s of
             [] \<Rightarrow> None
           | c # rest \<Rightarrow> if c = lit then Some (ds, rest) else None)"

text \<open>The pattern \<open>rgb\((\d+),\s*(\d+),\s*(\d+)\)\<close> matched at the start of \<open>s\<close>.\<close>

definition matchRgbAt :: "string \<Rightarrow> (string \<times> string \<times> string) option" where
  "matchRgbAt s =
     (if startsWith s ''rgb('' then
        case digitsThen (drop 4 s) CHR '','' of
          None \<Rightarrow> None
        | Some (r, s1) \<Rightarrow>
            (case digitsThen (dropWhile isSpace s1) CHR '','' of
               None \<Rightarrow> None
             | Some (g, s2) \<Rightarrow>
                 (case digitsThen (dropWhile isSpace s2) CHR '')'' of
                    None \<Rightarrow> None
                  | Some (b, s3) \<Rightarrow> Some (r, g, b)))
      else None)"

text \<open>\<open>color.match(...)\<close>: the leftmost position where the pattern matches.\<close>

fun searchRgb :: "string \<Rightarrow> (string \<times> string \<times> string) option" where
  "searchRgb [] = None"
| "searchRgb (c # cs) =
     (case matchRgbAt (c # cs) of Some m \<Rightarrow> Some m | None \<Rightarrow> searchRgb cs)"

definition hexChars :: string where
  "hexChars = ''0123456789abcdef''"

function showHex :: "nat \<Rightarrow> string" where
  "showHex n = (if n < 16 then [hexChars ! n] else showHex (n div 16) @ [hexChars ! (n mod 16)])"
  by pat_completeness auto
termination
  by (relation "measure id") auto

declare showHex.simps [simp del]

text \<open>\<open>parseInt(ds).toString(16).padStart(2, '0')\<close> for a string of digits \<open>ds\<close>.\<close>

definition hex2 :: "string \<Rightarrow> string" where
  "hex2 ds = (let h = showHex (readNat ds) in replicate (2 - length h) CHR ''0'' @ h)"

definition normalizeColor :: "string option \<Rightarrow> string" where
  "normalizeColor color =
     (if \<not> truthy color then []
      else case searchRgb (idOrEmpty color) of
             Some (r, g, b) \<Rightarrow> toLowerCase (''#'' @ hex2 r @ hex2 g @ hex2 b)
           | None \<Rightarrow> toLowerCase (idOrEmpty color))"

definition mapColor :: "string option \<Rightarrow> jsval option" where
  "mapColor color =
     (if \<not> truthy color then None
      else case getProp buildColorMap (idOrEmpty color) of
             Some v \<Rightarrow> Some v
           | None \<Rightarrow>
               (case getProp buildColorMap (normalizeColor color) of
                  Some v \<Rightarrow> Some v
                | None \<Rightarrow> None))"

section \<open>StyleExtractor: spacing and font sizes\<close>

text \<open>
  \<open>parseInt\<close> as this program calls it, on dictionary keys and on the digits a
  pattern captured: leading white space, a sign, then the longest run of decimal
  digits; \<open>NaN\<close> (\<open>None\<close>) when there is no digit. No argument starts with \<open>0x\<close>.
\<close>

definition parseInt :: "string \<Rightarrow> int option" where
  "parseInt s =
     (let s1 = dropWhile isSpace s;
          neg = startsWith s1 ''-'';
          s2 = (if startsWith s1 ''-'' \<or> startsWith s1 ''+'' then tl s1 else s1);
          ds = takeWhile isDigit s2
      in if ds = [] then None
         else Some (if neg then - int (readNat ds) else int (readNat ds)))"

text \<open>The pattern \<open>(\d+)px\<close> matched at the start of \<open>s\<close>, and its leftmost match.\<close>

definition matchPxAt :: "string \<Rightarrow> string option" where
  "matchPxAt s =
     (let ds = takeWhile isDigit s in
      if ds \<noteq> [] \<and> startsWith (dropWhile isDigit s) ''px'' then Some ds else None)"

fun searchPx :: "string \<Rightarrow> string option" where
  "searchPx [] = None"
| "searchPx (c # cs) = (case matchPxAt (c # cs) of Some ds \<Rightarrow> Some ds | None \<Rightarrow> searchPx cs)"

text \<open>
  The callback of \<open>reduce\<close>: the entry replaces the previous best only when it is
  strictly closer. A comparison with \<open>NaN\<close> is false.
\<close>

definition closer :: "int \<Rightarrow> string \<times> string \<Rightarrow> string \<times> string \<Rightarrow> string \<times> string" where
  "closer px prev entry =
     (case (parseInt (fst entry), parseInt (fst prev)) of
        (Some keyPx, Some prevPx) \<Rightarrow> if \<bar>keyPx - px\<bar> < \<bar>prevPx - px\<bar> then entry else prev
      | _ \<Rightarrow> prev)"

text \<open>
  \<open>Object.entries(map).reduce(callback)\<close> with no initial value starts from the
  first entry; on an empty array it throws (\<open>None\<close>).
\<close>

definition closest :: "(string \<times> string) list \<Rightarrow> int \<Rightarrow> (string \<times> string) option" where
  "closest entries px =
     (case entries of [] \<Rightarrow> None | e # es \<Rightarrow> Some (foldl (closer px) e es))"

definition mapNearest :: "(string \<times> string) list \<Rightarrow> string option \<Rightarrow> jsval option" where
  "mapNearest dict v =
     (if \<not> truthy v then None
      else case getProp dict (idOrEmpty v) of
             Some t \<Rightarrow> Some t
           | None \<Rightarrow>
               (case searchPx (idOrEmpty v) of
                  None \<Rightarrow> None
                | Some ds \<Rightarrow>
                    (case parseInt ds of
                       None \<Rightarrow> None
                     | Some px \<Rightarrow>
                         (case closest dict px of
                            None \<Rightarrow> None
                          | Some e \<Rightarrow> Some (Str (snd e))))))"

definition mapSpacing :: "string option \<Rightarrow> jsval option" where
  "mapSpacing v = mapNearest buildSpacingMap v"

definition mapFontSize :: "string option \<Rightarrow> jsval option" where
  "mapFontSize v = mapNearest buildFontSizeMap v"

section \<open>ComponentMapper: navigation\<close>

definition detectLayoutType :: "sectionRecord option \<Rightarrow> string" where
  "detectLayoutType section =
     (case section of
        None \<Rightarrow> ''flex''
      | Some sec \<Rightarrow>
          (let cls = toLowerCase (join (classesS sec) '' '') in
           if includesStr cls ''grid'' then ''grid''
           else if includesStr cls ''flex'' then ''flex''
           else ''block''))"

record navigationRecord =
  nameN :: string
  originalTag :: string
  classesN :: "string list"
  reactComponent :: string
  layoutN :: string

definition navigationOf :: "sectionRecord \<Rightarrow> navigationRecord" where
  "navigationOf sec =
     \<lparr> nameN = (if truthy (idS sec) then idOrEmpty (idS sec) else ''Navigation''),
       originalTag = tagS sec,
       classesN = classesS sec,
       reactComponent = ''Navigation'',
       layoutN = detectLayoutType (Some sec) \<rparr>"

definition pushNavigation :: "sectionRecord \<Rightarrow> navigationRecord list \<Rightarrow> navigationRecord list" where
  "pushNavigation sec navs =
     (if purpose sec = ''navigation'' then navs @ [navigationOf sec] else navs)"

definition mapNavigationComponents :: "analysisReport \<Rightarrow> navigationRecord list" where
  "mapNavigationComponents report = fold pushNavigation (sections report) []"

section \<open>The vocabulary of the specification\<close>

subsection \<open>Traversal order\<close>

text \<open>
  The nodes of a tree in pre-order, and the nodes whose depth does not exceed a bound,
  in pre-order; \<open>depth\<close> is the depth of the node the walk stands on. A walk that
  bounds its depth and truncates what lies deeper computes its result from the nodes
  within the bound.
\<close>

fun preorder :: "node \<Rightarrow> node list" where
  "preorder n = n # concat (map preorder (children n))"

declare preorder.simps [simp del]

fun nodesWithin :: "nat \<Rightarrow> nat \<Rightarrow> node \<Rightarrow> node list" where
  "nodesWithin bound depth n =
     (if depth > bound then []
      else n # concat (map (nodesWithin bound (depth + 1)) (children n)))"

declare nodesWithin.simps [simp del]

text \<open>What the component scan and the pattern scan do at one node.\<close>

definition componentsOf :: "node list \<Rightarrow> componentRecord list" where
  "componentsOf ns = map componentOf (filter isComponentLike ns)"

definition pushNode :: "node \<Rightarrow> (string \<times> node list) list \<Rightarrow> (string \<times> node list) list" where
  "pushNode n m = pushSignature m (generateComponentSignature (Some n)) n"

subsection \<open>Signatures\<close>

text \<open>
  A tag without a colon, and a class token that is not empty and has no dot: what
  element names and ordinary class names are.
\<close>

definition colonFree :: "string \<Rightarrow> bool" where
  "colonFree s = (CHR '':'' \<notin> set s)"

definition tokenOk :: "string \<Rightarrow> bool" where
  "tokenOk s = (s \<noteq> [] \<and> CHR ''.'' \<notin> set s)"

text \<open>
  The nodes a dictionary of signatures holds under a key, and the nodes of a list
  that have a given signature, in the order of the list.
\<close>

definition groupOf :: "(string \<times> node list) list \<Rightarrow> string \<Rightarrow> node list" where
  "groupOf m k = (case map_of m k of None \<Rightarrow> [] | Some ns \<Rightarrow> ns)"

definition withSignature :: "string \<Rightarrow> node list \<Rightarrow> node list" where
  "withSignature k ns = filter (\<lambda>n. generateComponentSignature (Some n) = k) ns"

subsection \<open>The eligibility gate\<close>

text \<open>
  The gate in the words of the specification. A node contains an interactive element
  when the node itself or one of its descendants has an interactive tag.
\<close>

definition eligible :: "node \<Rightarrow> bool" where
  "eligible n =
     ((truthy (ident n) \<or> classes n \<noteq> [])
      \<and> (children n \<noteq> [] \<or> (\<exists>m \<in> set (preorder n). tag m \<in> set interactiveTags)))"

subsection \<open>Nearest entries\<close>

text \<open>
  The specification's rule in its own words: the pixel magnitude of an entry is the
  integer its key starts with, and the entry chosen for \<open>px\<close> is the first one, in
  the order of the dictionary, whose magnitude is at the least distance from \<open>px\<close>.
\<close>

definition magnitude :: "string \<times> string \<Rightarrow> int" where
  "magnitude e = (case parseInt (fst e) of None \<Rightarrow> 0 | Some k \<Rightarrow> k)"

definition distance :: "int \<Rightarrow> string \<times> string \<Rightarrow> int" where
  "distance px e = \<bar>magnitude e - px\<bar>"

definition firstNearest :: "(string \<times> string) list \<Rightarrow> int \<Rightarrow> string \<times> string \<Rightarrow> bool" where
  "firstNearest dict px e =
     (\<exists>before after. dict = before @ e # after
        \<and> (\<forall>x \<in> set before. distance px e < distance px x)
        \<and> (\<forall>x \<in> set after. distance px e \<le> distance px x))"

subsection \<open>Colors\<close>

text \<open>
  The text \<open>rgb(r, g, b)\<close> of a color, with the components in decimal and any white
  space after the commas, and the text \<open>#rrggbb\<close> of the same color, two lower-case
  hexadecimal digits for each component.
\<close>

definition rgbText :: "nat \<Rightarrow> string \<Rightarrow> nat \<Rightarrow> string \<Rightarrow> nat \<Rightarrow> string" where
  "rgbText r ws1 g ws2 b =
     ''rgb('' @ showNat r @ '','' @ ws1 @ showNat g @ '','' @ ws2 @ showNat b @ '')''"

definition hexByte :: "nat \<Rightarrow> string" where
  "hexByte n = [hexChars ! (n div 16), hexChars ! (n mod 16)]"

definition hexColor :: "nat \<Rightarrow> nat \<Rightarrow> nat \<Rightarrow> string" where
  "hexColor r g b = ''#'' @ hexByte r @ hexByte g @ hexByte b"

subsection \<open>Landmarks\<close>

text \<open>
  The list of the section scan holds seven tags and three attribute selectors. A tag
  is an element name and holds no bracket. The role of a node is its \<open>role\<close>
  attribute.
\<close>

definition landmarkTags :: "string list" where
  "landmarkTags = [''header'', ''nav'', ''main'', ''section'', ''article'', ''aside'', ''footer'']"

definition roleSelectors :: "string list" where
  "roleSelectors = [''[role=\"navigation\"]'', ''[role=\"main\"]'', ''[role=\"contentinfo\"]'']"

definition landmarkRoles :: "string list" where
  "landmarkRoles = [''navigation'', ''main'', ''contentinfo'']"

definition hasLandmarkRole :: "node \<Rightarrow> bool" where
  "hasLandmarkRole n =
     (case map_of (attributes n) ''role'' of None \<Rightarrow> False | Some r \<Rightarrow> r \<in> set landmarkRoles)"

definition elementName :: "string \<Rightarrow> bool" where
  "elementName s = (CHR ''['' \<notin> set s)"

subsection \<open>Sample trees\<close>

text \<open>
  A chain of \<open>k\<close> nested \<open>div\<close> elements around a leaf, which puts the leaf at
  depth \<open>k\<close>; a flex container; a bare \<open>nav\<close> element; the scenario of the
  specification, a container of three primary buttons; a navigation bar laid out as
  a grid; a small page.
\<close>

fun chain :: "nat \<Rightarrow> node \<Rightarrow> node" where
  "chain 0 leaf = leaf"
| "chain (Suc k) leaf = Node ''div'' None [] [] [] None [chain k leaf]"

definition flexLeaf :: node where
  "flexLeaf = Node ''div'' None [] [] [] (Some [(''display'', ''flex'')]) []"

definition navLeaf :: node where
  "navLeaf = Node ''nav'' None [] [] [] None []"

definition primaryButton :: node where
  "primaryButton = Node ''button'' None [''btn'', ''btn-primary''] [] [] None []"

definition threeButtons :: node where
  "threeButtons =
     Node ''div'' None [''container''] [] [] None [primaryButton, primaryButton, primaryButton]"

definition gridNav :: node where
  "gridNav = Node ''nav'' None [''Nav-Grid''] [] [] None []"

definition page :: node where
  "page =
     Node ''body'' None [] [] [] None
       [Node ''header'' None [] [] [] None [],
        Node ''div'' None [''wrap''] [] [] None [Node ''article'' None [] [] [] None []],
        Node ''footer'' None [] [] [] None []]"

section \<open>Decimal strings\<close>

lemma digit_nth_isDigit: "d < 10 \<Longrightarrow> isDigit (digitChars ! d)"
  unfolding isDigit_def by (rule nth_mem) (simp add: digitChars_def)

lemma digitVal_nth: "d < 10 \<Longrightarrow> digitVal (digitChars ! d) = d"
proof -
  assume "d < 10"
  then have "d \<in> {0, 1, 2, 3, 4, 5, 6, 7, 8, 9}" by auto
  then show ?thesis
    by (auto simp: digitVal_def digitChars_def upt_conv_Cons)
qed

lemma showNat_digits: "c \<in> set (showNat n) \<Longrightarrow> isDigit c"
proof (induction n arbitrary: c rule: showNat.induct)
  case (1 n)
  show ?case
  proof (cases "n < 10")
    case True
    with "1.prems" show ?thesis by (simp add: showNat.simps[of n] digit_nth_isDigit)
  next
    case False
    with 1 show ?thesis by (auto simp: showNat.simps[of n] digit_nth_isDigit)
  qed
qed

lemma showNat_nonempty: "showNat n \<noteq> []"
  by (subst showNat.simps) simp

lemma readNat_snoc: "readNat (s @ [c]) = 10 * readNat s + digitVal c"
  by (simp add: readNat_def)

lemma readNat_showNat: "readNat (showNat n) = n"
proof (induction n rule: showNat.induct)
  case (1 n)
  show ?case
  proof (cases "n < 10")
    case True
    then show ?thesis by (simp add: showNat.simps[of n] readNat_def digitVal_nth)
  next
    case False
    with 1 show ?thesis by (simp add: showNat.simps[of n] readNat_snoc digitVal_nth)
  qed
qed

lemma showNat_inj: "showNat m = showNat n \<Longrightarrow> m = n"
  by (metis readNat_showNat)

lemma isDigit_not_colon: "isDigit c \<Longrightarrow> c \<noteq> CHR '':''"
  by (auto simp: isDigit_def digitChars_def)

section \<open>Separators\<close>

lemma sep_prefix_unique:
  assumes "c \<notin> set a" "c \<notin> set b" "a @ c # r = b @ c # s"
  shows "a = b \<and> r = s"
proof -
  have "takeWhile (\<lambda>x. x \<noteq> c) (a @ c # r) = a"
    using assms(1) by (subst takeWhile_append2) auto
  moreover have "takeWhile (\<lambda>x. x \<noteq> c) (b @ c # s) = b"
    using assms(2) by (subst takeWhile_append2) auto
  ultimately have "a = b" using assms(3) by simp
  with assms(3) show ?thesis by simp
qed

lemma sep_suffix_unique:
  assumes "c \<notin> set a" "c \<notin> set b" "r @ c # a = s @ c # b"
  shows "a = b \<and> r = s"
proof -
  from assms(3) have "rev (r @ c # a) = rev (s @ c # b)" by simp
  then have "rev a @ c # rev r = rev b @ c # rev s" by simp
  then have "rev a = rev b \<and> rev r = rev s"
    using sep_prefix_unique[of c "rev a" "rev b" "rev r" "rev s"] assms(1,2) by simp
  then show ?thesis by simp
qed

lemma join_Cons: "join (x # xs) sep = (if xs = [] then x else x @ sep @ join xs sep)"
  by (cases xs) auto

section \<open>The structural signature\<close>

lemma join_dot_inj:
  "list_all tokenOk xs \<Longrightarrow> list_all tokenOk ys \<Longrightarrow> join xs ''.'' = join ys ''.'' \<Longrightarrow> xs = ys"
proof (induction xs arbitrary: ys)
  case Nil
  then show ?case by (cases ys) (auto simp: join_Cons tokenOk_def split: if_splits)
next
  case (Cons x xs)
  show ?case
  proof (cases ys)
    case Nil
    with Cons.prems show ?thesis by (auto simp: join_Cons tokenOk_def split: if_splits)
  next
    case (Cons y ys')
    have x: "CHR ''.'' \<notin> set x" and y: "CHR ''.'' \<notin> set y"
      using Cons.prems \<open>ys = y # ys'\<close> by (auto simp: tokenOk_def)
    show ?thesis
    proof (cases "xs = []")
      case True
      show ?thesis
      proof (cases "ys' = []")
        case True
        with \<open>xs = []\<close> Cons.prems \<open>ys = y # ys'\<close> show ?thesis by simp
      next
        case False
        with \<open>xs = []\<close> Cons.prems \<open>ys = y # ys'\<close> have "x = y @ CHR ''.'' # join ys' ''.''"
          by (simp add: join_Cons)
        with x show ?thesis by auto
      qed
    next
      case False
      show ?thesis
      proof (cases "ys' = []")
        case True
        with \<open>xs \<noteq> []\<close> Cons.prems \<open>ys = y # ys'\<close> have "y = x @ CHR ''.'' # join xs ''.''"
          by (simp add: join_Cons)
        with y show ?thesis by auto
      next
        case F2: False
        with False Cons.prems \<open>ys = y # ys'\<close>
        have "x @ CHR ''.'' # join xs ''.'' = y @ CHR ''.'' # join ys' ''.''"
          by (simp add: join_Cons)
        then have "x = y \<and> join xs ''.'' = join ys' ''.''"
          using sep_prefix_unique[OF x y] by blast
        moreover have "list_all tokenOk xs" "list_all tokenOk ys'"
          using Cons.prems \<open>ys = y # ys'\<close> by auto
        ultimately show ?thesis using Cons.IH[of ys'] \<open>ys = y # ys'\<close> by simp
      qed
    qed
  qed
qed

lemma signature_split_count:
  assumes "generateComponentSignature (Some a) = generateComponentSignature (Some b)"
  shows "childCount a = childCount b"
    and "tag a @ '':'' @ join (classes a) ''.'' = tag b @ '':'' @ join (classes b) ''.''"
proof -
  have da: "CHR '':'' \<notin> set (showNat (childCount a))"
    and db: "CHR '':'' \<notin> set (showNat (childCount b))"
    using showNat_digits isDigit_not_colon by blast+
  from assms have "(tag a @ '':'' @ join (classes a) ''.'') @ CHR '':'' # showNat (childCount a)
     = (tag b @ '':'' @ join (classes b) ''.'') @ CHR '':'' # showNat (childCount b)"
    by (simp add: generateComponentSignature_def)
  from sep_suffix_unique[OF da db this]
  show "childCount a = childCount b"
    and "tag a @ '':'' @ join (classes a) ''.'' = tag b @ '':'' @ join (classes b) ''.''"
    using showNat_inj by blast+
qed

lemma signature_split_tag:
  assumes "generateComponentSignature (Some a) = generateComponentSignature (Some b)"
    and "colonFree (tag a)" "colonFree (tag b)"
  shows "tag a = tag b" and "join (classes a) ''.'' = join (classes b) ''.''"
proof -
  from signature_split_count(2)[OF assms(1)]
  have "tag a @ CHR '':'' # join (classes a) ''.'' = tag b @ CHR '':'' # join (classes b) ''.''"
    by simp
  from sep_prefix_unique[OF _ _ this] assms(2,3)
  show "tag a = tag b" and "join (classes a) ''.'' = join (classes b) ''.''"
    by (auto simp: colonFree_def)
qed

text \<open>
  C1, as stated, fails: the class lists \<open>[p-2.5]\<close> and \<open>[p-2, 5]\<close> differ, and the two
  nodes have the same signature \<open>div:p-2.5:0\<close>, since \<open>join\<close> writes a dot between
  tokens and a token may hold one.
\<close>

theorem signature_collision:
  "classes (Node ''div'' None [''p-2.5''] [] [] None [])
     \<noteq> classes (Node ''div'' None [''p-2'', ''5''] [] [] None [])
   \<and> generateComponentSignature (Some (Node ''div'' None [''p-2.5''] [] [] None []))
     = generateComponentSignature (Some (Node ''div'' None [''p-2'', ''5''] [] [] None []))"
  by (simp add: generateComponentSignature_def childCount_def)

text \<open>
  C1, amended. The signature of a node is its tag, a colon, its classes joined with
  dots, a colon and the decimal number of its immediate children. Two nodes with the
  same tag, classes and number of children have the same signature. Two nodes with
  different numbers of children have different signatures. Two nodes whose tags hold
  no colon have different signatures when the tags differ, and also when their class
  lists differ and every class token is non-empty and holds no dot.
\<close>

theorem signature_separation:
  "generateComponentSignature (Some a)
     = tag a @ '':'' @ join (classes a) ''.'' @ '':'' @ showNat (length (children a))
   \<and> (tag a = tag b \<and> classes a = classes b \<and> length (children a) = length (children b)
        \<longrightarrow> generateComponentSignature (Some a) = generateComponentSignature (Some b))
   \<and> (length (children a) \<noteq> length (children b)
        \<longrightarrow> generateComponentSignature (Some a) \<noteq> generateComponentSignature (Some b))
   \<and> (colonFree (tag a) \<and> colonFree (tag b) \<and> tag a \<noteq> tag b
        \<longrightarrow> generateComponentSignature (Some a) \<noteq> generateComponentSignature (Some b))
   \<and> (colonFree (tag a) \<and> colonFree (tag b)
        \<and> list_all tokenOk (classes a) \<and> list_all tokenOk (classes b)
        \<and> classes a \<noteq> classes b
        \<longrightarrow> generateComponentSignature (Some a) \<noteq> generateComponentSignature (Some b))"
proof (intro conjI impI)
  show "generateComponentSignature (Some a)
     = tag a @ '':'' @ join (classes a) ''.'' @ '':'' @ showNat (length (children a))"
    by (simp add: generateComponentSignature_def childCount_def)
next
  assume "tag a = tag b \<and> classes a = classes b \<and> length (children a) = length (children b)"
  then show "generateComponentSignature (Some a) = generateComponentSignature (Some b)"
    by (simp add: generateComponentSignature_def childCount_def)
next
  assume "length (children a) \<noteq> length (children b)"
  then show "generateComponentSignature (Some a) \<noteq> generateComponentSignature (Some b)"
    using signature_split_count(1)[of a b] by (auto simp: childCount_def)
next
  assume "colonFree (tag a) \<and> colonFree (tag b) \<and> tag a \<noteq> tag b"
  then show "generateComponentSignature (Some a) \<noteq> generateComponentSignature (Some b)"
    using signature_split_tag(1)[of a b] by blast
next
  assume h: "colonFree (tag a) \<and> colonFree (tag b)
        \<and> list_all tokenOk (classes a) \<and> list_all tokenOk (classes b)
        \<and> classes a \<noteq> classes b"
  show "generateComponentSignature (Some a) \<noteq> generateComponentSignature (Some b)"
  proof
    assume "generateComponentSignature (Some a) = generateComponentSignature (Some b)"
    with h have "join (classes a) ''.'' = join (classes b) ''.''"
      using signature_split_tag(2)[of a b] by blast
    with h show False using join_dot_inj by blast
  qed
qed

theorem signature_separation_witness:
  "colonFree (tag (Node ''button'' None [''btn'', ''btn-primary''] [] [] None []))
   \<and> colonFree (tag (Node ''div'' None [''btn'', ''btn-primary''] [] [] None []))
   \<and> tag (Node ''button'' None [''btn'', ''btn-primary''] [] [] None [])
       \<noteq> tag (Node ''div'' None [''btn'', ''btn-primary''] [] [] None [])
   \<and> generateComponentSignature (Some (Node ''button'' None [''btn'', ''btn-primary''] [] [] None []))
       \<noteq> generateComponentSignature (Some (Node ''div'' None [''btn'', ''btn-primary''] [] [] None []))"
proof -
  let ?a = "Node ''button'' None [''btn'', ''btn-primary''] [] [] None []"
  let ?b = "Node ''div'' None [''btn'', ''btn-primary''] [] [] None []"
  have h: "colonFree (tag ?a) \<and> colonFree (tag ?b) \<and> tag ?a \<noteq> tag ?b"
    by (simp add: colonFree_def)
  with signature_separation[of ?a ?b]
  have "generateComponentSignature (Some ?a) \<noteq> generateComponentSignature (Some ?b)"
    by blast
  with h show ?thesis by blast
qed

section \<open>The walks visit the tree in pre-order\<close>

lemma fold_children_preorder:
  assumes "\<And>c acc. c \<in> set cs \<Longrightarrow> f c acc = fold step (preorder c) acc"
  shows "fold f cs acc = fold step (concat (map preorder cs)) acc"
  using assms by (induction cs arbitrary: acc) auto

lemma walk_preorder:
  assumes "\<And>n acc. f n acc = fold f (children n) (step n acc)"
  shows "f n acc = fold step (preorder n) acc"
proof (induction n arbitrary: acc rule: preorder.induct)
  case (1 n)
  have "f n acc = fold f (children n) (step n acc)" by (rule assms)
  also have "\<dots> = fold step (concat (map preorder (children n))) (step n acc)"
    by (rule fold_children_preorder) (rule 1)
  also have "\<dots> = fold step (preorder n) acc"
    by (simp add: preorder.simps[of n])
  finally show ?case .
qed

lemma traverseNodeL_preorder: "traverseNodeL n acc = fold pushLayout (preorder n) acc"
  by (rule walk_preorder) (rule traverseNodeL.simps)

lemma traverseNodeT_preorder: "traverseNodeT n acc = fold collectTokens (preorder n) acc"
  by (rule walk_preorder) (rule traverseNodeT.simps)

lemma traverseNodeP_preorder: "traverseNodeP n acc = fold pushNode (preorder n) acc"
proof (rule walk_preorder)
  show "traverseNodeP n acc = fold traverseNodeP (children n) (pushNode n acc)" for n acc
    unfolding pushNode_def by (rule traverseNodeP.simps)
qed

lemma traverseNodeS_within:
  "traverseNodeS n depth acc = fold pushSection (nodesWithin 10 depth n) acc"
proof (induction n arbitrary: depth acc rule: preorder.induct)
  case (1 n)
  show ?case
  proof (cases "depth > 10")
    case True
    then show ?thesis by (simp add: traverseNodeS.simps[of n] nodesWithin.simps[of _ _ n])
  next
    case False
    have "fold (\<lambda>child. traverseNodeS child (depth + 1)) cs a
        = fold pushSection (concat (map (nodesWithin 10 (depth + 1)) cs)) a"
      if "set cs \<subseteq> set (children n)" for cs a
      using that by (induction cs arbitrary: a) (auto simp: 1)
    with False show ?thesis
      by (simp add: traverseNodeS.simps[of n] nodesWithin.simps[of _ _ n])
  qed
qed

subsection \<open>The visited set of the component scan never stops the walk\<close>

lemma componentsOf_append [simp]: "componentsOf (xs @ ys) = componentsOf xs @ componentsOf ys"
  by (simp add: componentsOf_def)

lemma prefix_snoc_distinct:
  assumes "prefix (pos @ [j]) q" "prefix (pos @ [m]) q"
  shows "j = m"
proof -
  from assms have "take (Suc (length pos)) q = pos @ [j]" "take (Suc (length pos)) q = pos @ [m]"
    by (auto simp: prefix_def)
  then show ?thesis by simp
qed

lemma traverseNodeC_fresh:
  assumes "\<forall>q \<in> set visited. \<not> prefix pos q"
  shows "\<exists>visited'. traverseNodeC n pos (visited, comps)
            = (visited', comps @ componentsOf (preorder n))
          \<and> (\<forall>q \<in> set visited'. q \<in> set visited \<or> prefix pos q)"
  using assms
proof (induction n arbitrary: pos visited comps rule: preorder.induct)
  case (1 n)
  let ?cs = "children n"
  let ?comps = "if isComponentLike n then comps @ [componentOf n] else comps"
  let ?f = "\<lambda>k. traverseNodeC (?cs ! k) (pos @ [k])"
  have fresh: "pos \<notin> set visited" using 1(2) by auto
  have inner: "m \<le> length ?cs \<Longrightarrow>
      \<exists>V. fold ?f [0 ..< m] (pos # visited, ?comps)
            = (V, ?comps @ componentsOf (concat (map preorder (take m ?cs))))
        \<and> (\<forall>q \<in> set V. q = pos \<or> q \<in> set visited \<or> (\<exists>j < m. prefix (pos @ [j]) q))" for m
  proof (induction m)
    case 0
    then show ?case by (simp add: componentsOf_def)
  next
    case (Suc m)
    then obtain V where V: "fold ?f [0 ..< m] (pos # visited, ?comps)
            = (V, ?comps @ componentsOf (concat (map preorder (take m ?cs))))"
      and Vq: "\<forall>q \<in> set V. q = pos \<or> q \<in> set visited \<or> (\<exists>j < m. prefix (pos @ [j]) q)"
      by auto
    have m: "m < length ?cs" using Suc.prems by simp
    have nofix: "\<forall>q \<in> set V. \<not> prefix (pos @ [m]) q"
    proof
      fix q assume "q \<in> set V"
      with Vq consider "q = pos" | "q \<in> set visited" | j where "j < m" "prefix (pos @ [j]) q"
        by blast
      then show "\<not> prefix (pos @ [m]) q"
      proof cases
        case 1
        then show ?thesis by (auto simp: prefix_def)
      next
        case 2
        with "1.prems" have "\<not> prefix pos q" by blast
        then show ?thesis by (auto dest: append_prefixD)
      next
        case 3
        then show ?thesis using prefix_snoc_distinct[of pos j q m] by auto
      qed
    qed
    from "1.IH"[OF nth_mem[OF m] nofix, of "?comps @ componentsOf (concat (map preorder (take m ?cs)))"]
    obtain V' where V': "traverseNodeC (?cs ! m) (pos @ [m])
          (V, ?comps @ componentsOf (concat (map preorder (take m ?cs))))
        = (V', (?comps @ componentsOf (concat (map preorder (take m ?cs))))
                @ componentsOf (preorder (?cs ! m)))"
      and V'q: "\<forall>q \<in> set V'. q \<in> set V \<or> prefix (pos @ [m]) q"
      by blast
    have "fold ?f [0 ..< Suc m] (pos # visited, ?comps)
        = (V', ?comps @ componentsOf (concat (map preorder (take (Suc m) ?cs))))"
      using V V' m by (simp add: take_Suc_conv_app_nth)
    moreover have "\<forall>q \<in> set V'. q = pos \<or> q \<in> set visited \<or> (\<exists>j < Suc m. prefix (pos @ [j]) q)"
    proof
      fix q assume "q \<in> set V'"
      with V'q have "q \<in> set V \<or> prefix (pos @ [m]) q" by simp
      then show "q = pos \<or> q \<in> set visited \<or> (\<exists>j < Suc m. prefix (pos @ [j]) q)"
      proof
        assume "q \<in> set V"
        with Vq have "q = pos \<or> q \<in> set visited \<or> (\<exists>j < m. prefix (pos @ [j]) q)" by simp
        then show ?thesis using less_Suc_eq by auto
      next
        assume "prefix (pos @ [m]) q"
        then show ?thesis by auto
      qed
    qed
    ultimately show ?case by blast
  qed
  from inner[of "length ?cs"] obtain V where
    V: "fold ?f [0 ..< length ?cs] (pos # visited, ?comps)
            = (V, ?comps @ componentsOf (concat (map preorder ?cs)))"
    and Vq: "\<forall>q \<in> set V. q = pos \<or> q \<in> set visited \<or> (\<exists>j < length ?cs. prefix (pos @ [j]) q)"
    by auto
  have "traverseNodeC n pos (visited, comps) = (V, comps @ componentsOf (preorder n))"
    using fresh V by (simp add: traverseNodeC.simps[of n] preorder.simps[of n] componentsOf_def)
  moreover have "\<forall>q \<in> set V. q \<in> set visited \<or> prefix pos q"
  proof
    fix q assume "q \<in> set V"
    with Vq have "q = pos \<or> q \<in> set visited \<or> (\<exists>j < length ?cs. prefix (pos @ [j]) q)"
      by simp
    then show "q \<in> set visited \<or> prefix pos q" by (auto dest: append_prefixD)
  qed
  ultimately show ?case by blast
qed

lemma analyzeComponentStructure_preorder:
  "analyzeComponentStructure (Some t) = componentsOf (preorder t)"
  using traverseNodeC_fresh[of "[]" "[]" t "[]"] by (auto simp: analyzeComponentStructure_def)

section \<open>The eligibility gate of the component scan\<close>

lemma hasInteractiveElements_preorder:
  "hasInteractiveElements n \<longleftrightarrow> (\<exists>m \<in> set (preorder n). tag m \<in> set interactiveTags)"
proof (induction n rule: preorder.induct)
  case (1 n)
  show ?case
    by (subst hasInteractiveElements.simps, subst preorder.simps) (auto simp: list_ex_iff 1)
qed

lemma isComponentLike_eligible: "isComponentLike n = eligible n"
  by (simp add: isComponentLike_def eligible_def hasInteractiveElements_preorder)

lemma button_is_eligible:
  assumes "tag b = ''button''" "classes b = [''btn'', ''btn-primary'']"
  shows "eligible b"
proof -
  have "b \<in> set (preorder b)" by (subst preorder.simps) simp
  with assms show ?thesis by (auto simp: eligible_def interactiveTags_def)
qed

lemma button_type: "tag b = ''button'' \<Longrightarrow> estimateComponentType b = ''button''"
  by (simp add: estimateComponentType_def toLowerCase_def lowerChar_def upperChars_def
      lowerChars_def)

text \<open>
  C5. The component scan yields one record for each node of the tree, in pre-order,
  that has an id or a class and that has a child or contains an interactive
  element, and no other record. A childless \<open>button\<close> with the classes \<open>btn\<close> and
  \<open>btn-primary\<close> anywhere in the tree yields a record, of type \<open>button\<close>.
\<close>

theorem component_gate:
  "analyzeComponentStructure (Some t) = map componentOf (filter eligible (preorder t))
   \<and> (b \<in> set (preorder t) \<and> tag b = ''button'' \<and> classes b = [''btn'', ''btn-primary'']
        \<and> children b = []
        \<longrightarrow> componentOf b \<in> set (analyzeComponentStructure (Some t))
            \<and> estimatedType (componentOf b) = ''button'')"
proof -
  have eq: "analyzeComponentStructure (Some t) = map componentOf (filter eligible (preorder t))"
    by (simp add: analyzeComponentStructure_preorder componentsOf_def isComponentLike_eligible[abs_def])
  show ?thesis
  proof (intro conjI impI)
    show "analyzeComponentStructure (Some t) = map componentOf (filter eligible (preorder t))"
      by (rule eq)
  next
    assume h: "b \<in> set (preorder t) \<and> tag b = ''button'' \<and> classes b = [''btn'', ''btn-primary'']
        \<and> children b = []"
    then have "eligible b" using button_is_eligible by blast
    with h show "componentOf b \<in> set (analyzeComponentStructure (Some t))"
      by (simp add: eq)
  next
    assume "b \<in> set (preorder t) \<and> tag b = ''button'' \<and> classes b = [''btn'', ''btn-primary'']
        \<and> children b = []"
    then show "estimatedType (componentOf b) = ''button''"
      by (simp add: componentOf_def button_type)
  qed
qed

theorem component_gate_witness:
  "primaryButton \<in> set (preorder threeButtons)
   \<and> tag primaryButton = ''button''
   \<and> classes primaryButton = [''btn'', ''btn-primary'']
   \<and> children primaryButton = []
   \<and> componentOf primaryButton \<in> set (analyzeComponentStructure (Some threeButtons))
   \<and> estimatedType (componentOf primaryButton) = ''button''"
proof -
  have h: "primaryButton \<in> set (preorder threeButtons)
      \<and> tag primaryButton = ''button''
      \<and> classes primaryButton = [''btn'', ''btn-primary'']
      \<and> children primaryButton = []"
    by (simp add: preorder.simps threeButtons_def primaryButton_def)
  with component_gate[of threeButtons primaryButton] show ?thesis by blast
qed

section \<open>Repeated patterns\<close>

lemma map_of_pushSignature:
  "map_of (pushSignature m s n) k = (if k = s then Some (groupOf m s @ [n]) else map_of m k)"
  by (induction m s n rule: pushSignature.induct) (auto simp: groupOf_def)

lemma keys_pushSignature:
  "map fst (pushSignature m s n) = (if s \<in> set (map fst m) then map fst m else map fst m @ [s])"
  by (induction m s n rule: pushSignature.induct) auto

lemma distinct_pushSignature:
  "distinct (map fst m) \<Longrightarrow> distinct (map fst (pushSignature m s n))"
  by (simp add: keys_pushSignature)

lemma fold_pushNode:
  "distinct (map fst m) \<Longrightarrow>
   distinct (map fst (fold pushNode xs m))
   \<and> (\<forall>k. map_of (fold pushNode xs m) k
         = (if withSignature k xs = [] then map_of m k
            else Some (groupOf m k @ withSignature k xs)))"
proof (induction xs arbitrary: m)
  case Nil
  then show ?case by (simp add: withSignature_def)
next
  case (Cons x xs)
  have d: "distinct (map fst (pushNode x m))"
    using Cons.prems by (simp add: pushNode_def distinct_pushSignature)
  from Cons.IH[OF d] show ?case
    by (auto simp: pushNode_def map_of_pushSignature withSignature_def groupOf_def)
qed

lemma map_of_repeatedOnly:
  "distinct (map fst m) \<Longrightarrow>
   map_of (repeatedOnly m) k
     = (case map_of m k of
          None \<Rightarrow> None
        | Some ns \<Rightarrow> if length ns > 1 then Some (patternOf ns) else None)"
proof (induction m)
  case Nil
  then show ?case by (simp add: repeatedOnly_def)
next
  case (Cons e m)
  obtain k' ns' where e: "e = (k', ns')" by (cases e)
  from Cons.prems e have notin: "k' \<notin> fst ` set m" and d: "distinct (map fst m)" by auto
  have none: "map_of (repeatedOnly m) k' = None"
    using notin by (force simp: repeatedOnly_def map_of_eq_None_iff)
  have step: "repeatedOnly ((k', ns') # m)
      = (if length ns' > 1 then (k', patternOf ns') # repeatedOnly m else repeatedOnly m)"
    by (simp add: repeatedOnly_def)
  show ?case
  proof (cases "k = k'")
    case True
    with none show ?thesis by (simp add: step e)
  next
    case False
    with Cons.IH[OF d] show ?thesis by (simp add: step e)
  qed
qed

lemma distinct_repeatedOnly:
  "distinct (map fst m) \<Longrightarrow> distinct (map fst (repeatedOnly m))"
proof -
  have "map fst (repeatedOnly m) = map fst (filter (\<lambda>(sig, nodes). length nodes > 1) m)"
    by (auto simp: repeatedOnly_def)
  moreover assume "distinct (map fst m)"
  ultimately show ?thesis by (simp add: distinct_map_filter)
qed

text \<open>
  C6. \<open>repeatedPatterns\<close> is a mapping (no key occurs twice). A signature is a key
  exactly when more than one node of the tree has it; its count is the number of
  those nodes, and its examples are the first three of them in pre-order, or all of
  them when there are fewer.
\<close>

theorem repeated_patterns:
  "distinct (map fst (detectRepeatedPatterns (Some t)))
   \<and> map_of (detectRepeatedPatterns (Some t)) k
     = (if length (withSignature k (preorder t)) > 1
        then Some \<lparr> count = length (withSignature k (preorder t)),
                    examples = map exampleOf (take 3 (withSignature k (preorder t))) \<rparr>
        else None)"
proof -
  have f: "distinct (map fst (fold pushNode (preorder t) []))"
    and g: "map_of (fold pushNode (preorder t) []) k
         = (if withSignature k (preorder t) = [] then None
            else Some (withSignature k (preorder t)))"
    using fold_pushNode[of "[]" "preorder t"] by (simp_all add: groupOf_def)
  show ?thesis
    using map_of_repeatedOnly[OF f, of k] distinct_repeatedOnly[OF f] g
    by (auto simp: detectRepeatedPatterns_def traverseNodeP_preorder patternOf_def)
qed

theorem repeated_patterns_witness:
  "map_of (detectRepeatedPatterns (Some threeButtons)) ''button:btn.btn-primary:0''
     = Some \<lparr> count = 3,
              examples = [exampleOf primaryButton, exampleOf primaryButton, exampleOf primaryButton] \<rparr>
   \<and> map_of (detectRepeatedPatterns (Some threeButtons)) ''div:container:3'' = None"
proof -
  have a: "withSignature ''button:btn.btn-primary:0'' (preorder threeButtons)
      = [primaryButton, primaryButton, primaryButton]"
    by code_simp
  have b: "withSignature ''div:container:3'' (preorder threeButtons) = [threeButtons]"
    by code_simp
  show ?thesis
    using repeated_patterns[of threeButtons "''button:btn.btn-primary:0''"]
      repeated_patterns[of threeButtons "''div:container:3''"]
    by (simp add: a b)
qed

section \<open>Spacing quantization\<close>

lemma closer_distance:
  assumes "parseInt (fst prev) \<noteq> None" "parseInt (fst entry) \<noteq> None"
  shows "closer px prev entry = (if distance px entry < distance px prev then entry else prev)"
  using assms by (auto simp: closer_def distance_def magnitude_def)

lemma foldl_closer:
  assumes "\<forall>x \<in> set (before @ r # mid @ es). parseInt (fst x) \<noteq> None"
    and "\<forall>x \<in> set before. distance px r < distance px x"
    and "\<forall>x \<in> set mid. distance px r \<le> distance px x"
  shows "firstNearest (before @ r # mid @ es) px (foldl (closer px) r es)"
  using assms
proof (induction es arbitrary: before r mid)
  case Nil
  then show ?case unfolding firstNearest_def by auto
next
  case (Cons y es)
  have c: "closer px r y = (if distance px y < distance px r then y else r)"
    using Cons.prems(1) by (intro closer_distance) auto
  show ?case
  proof (cases "distance px y < distance px r")
    case True
    have "firstNearest ((before @ r # mid) @ y # [] @ es) px (foldl (closer px) y es)"
    proof (rule Cons.IH)
      show "\<forall>x\<in>set ((before @ r # mid) @ y # [] @ es). parseInt (fst x) \<noteq> None"
        using Cons.prems(1) by auto
      show "\<forall>x\<in>set (before @ r # mid). distance px y < distance px x"
        using True Cons.prems(2,3) by fastforce
      show "\<forall>x\<in>set []. distance px y \<le> distance px x" by simp
    qed
    with True c show ?thesis by simp
  next
    case False
    have "firstNearest (before @ r # (mid @ [y]) @ es) px (foldl (closer px) r es)"
    proof (rule Cons.IH)
      show "\<forall>x\<in>set (before @ r # (mid @ [y]) @ es). parseInt (fst x) \<noteq> None"
        using Cons.prems(1) by auto
      show "\<forall>x\<in>set before. distance px r < distance px x" by (rule Cons.prems(2))
      show "\<forall>x\<in>set (mid @ [y]). distance px r \<le> distance px x"
        using False Cons.prems(3) by auto
    qed
    with False c show ?thesis by simp
  qed
qed

lemma closest_firstNearest:
  assumes "dict \<noteq> []" "\<forall>x \<in> set dict. parseInt (fst x) \<noteq> None"
  shows "\<exists>e. closest dict px = Some e \<and> firstNearest dict px e"
proof -
  from assms(1) obtain e es where d: "dict = e # es" by (cases dict) auto
  have "firstNearest ([] @ e # [] @ es) px (foldl (closer px) e es)"
    by (rule foldl_closer) (use assms(2) d in auto)
  then show ?thesis by (simp add: closest_def d)
qed

lemma showNat_Cons: "\<exists>c cs. showNat n = c # cs \<and> isDigit c"
proof -
  obtain c cs where "showNat n = c # cs" using showNat_nonempty by (cases "showNat n") auto
  moreover from this have "isDigit c" using showNat_digits[of c n] by simp
  ultimately show ?thesis by blast
qed

lemma takeWhile_digits: "takeWhile isDigit (showNat n @ CHR ''p'' # r) = showNat n"
proof -
  have "takeWhile isDigit (showNat n @ CHR ''p'' # r) = showNat n @ takeWhile isDigit (CHR ''p'' # r)"
    by (rule takeWhile_append2) (rule showNat_digits)
  then show ?thesis by (simp add: isDigit_def digitChars_def)
qed

lemma dropWhile_digits: "dropWhile isDigit (showNat n @ CHR ''p'' # r) = CHR ''p'' # r"
proof -
  have "dropWhile isDigit (showNat n @ CHR ''p'' # r) = dropWhile isDigit (CHR ''p'' # r)"
    by (rule dropWhile_append2) (rule showNat_digits)
  then show ?thesis by (simp add: isDigit_def digitChars_def)
qed

lemma searchPx_showNat: "searchPx (showNat n @ ''px'') = Some (showNat n)"
proof -
  obtain c cs where s: "showNat n = c # cs" using showNat_Cons by blast
  have "matchPxAt (showNat n @ ''px'') = Some (showNat n)"
    using showNat_nonempty[of n] by (simp add: matchPxAt_def takeWhile_digits dropWhile_digits)
  then show ?thesis by (simp add: s)
qed

lemma isDigit_not_space: "isDigit c \<Longrightarrow> \<not> isSpace c"
  by (auto simp: isDigit_def isSpace_def digitChars_def)

lemma parseInt_showNat: "parseInt (showNat n) = Some (int n)"
proof -
  obtain c cs where s: "showNat n = c # cs" and c: "isDigit c" using showNat_Cons by blast
  have sp: "dropWhile isSpace (showNat n) = showNat n"
    using c by (simp add: s isDigit_not_space)
  have sign: "\<not> startsWith (showNat n) ''-''" "\<not> startsWith (showNat n) ''+''"
    using c by (auto simp: s isDigit_def digitChars_def)
  have all: "takeWhile isDigit (showNat n) = showNat n"
    by (simp add: showNat_digits)
  show ?thesis
    using showNat_nonempty[of n] by (simp add: parseInt_def sp sign all readNat_showNat)
qed

lemma px_not_inherited: "showNat n @ ''px'' \<notin> set objectPrototypeKeys"
proof -
  obtain c cs where s: "showNat n = c # cs" and c: "isDigit c" using showNat_Cons by blast
  show ?thesis using c by (auto simp: s objectPrototypeKeys_def isDigit_def digitChars_def)
qed

lemma spacing_keys_parse: "\<forall>x \<in> set buildSpacingMap. parseInt (fst x) \<noteq> None"
  by (simp add: buildSpacingMap_def parseInt_def isSpace_def isDigit_def digitChars_def)

lemma mapSpacing_px:
  assumes "map_of buildSpacingMap (showNat n @ ''px'') = None"
  shows "\<exists>e. firstNearest buildSpacingMap (int n) e \<and> mapSpacing (Some (showNat n @ ''px'')) = Some (Str (snd e))"
proof -
  have ne: "buildSpacingMap \<noteq> []" by (simp add: buildSpacingMap_def)
  from closest_firstNearest[OF ne spacing_keys_parse, of "int n"]
  obtain e where e: "closest buildSpacingMap (int n) = Some e" "firstNearest buildSpacingMap (int n) e"
    by blast
  have "mapSpacing (Some (showNat n @ ''px'')) = Some (Str (snd e))"
    using assms px_not_inherited[of n] e(1)
    by (simp add: mapSpacing_def mapNearest_def truthy_def idOrEmpty_def getProp_def
        searchPx_showNat parseInt_showNat)
  with e(2) show ?thesis by blast
qed

text \<open>
  C2, as stated, fails at its own example: \<open>10px\<close> is as far from \<open>8px\<close> as from
  \<open>12px\<close>, the callback of \<open>reduce\<close> replaces the best entry only on a strictly
  smaller distance, and \<open>8px\<close> comes first; the result is \<open>2\<close>, not \<open>3\<close>.
\<close>

theorem spacing_tie_resolves_to_first:
  "mapSpacing (Some ''10px'') = Some (Str ''2'') \<and> mapSpacing (Some ''10px'') \<noteq> Some (Str ''3'')"
  by code_simp

text \<open>
  C2, amended. A raw value \<open>n px\<close>, \<open>n\<close> a non-negative integer up to \<open>2 ^ 53\<close>
  written in decimal, that is no key of the spacing dictionary resolves to the token of
  the first entry, in the dictionary's order, at the least distance from \<open>n\<close>. So
  \<open>9px\<close> resolves to \<open>2\<close>, and \<open>10px\<close>, at the same distance from \<open>8px\<close> and \<open>12px\<close>,
  resolves to \<open>2\<close> as well.
\<close>

theorem spacing_quantization:
  "(n \<le> 2 ^ 53 \<and> map_of buildSpacingMap (showNat n @ ''px'') = None
      \<longrightarrow> (\<exists>e. firstNearest buildSpacingMap (int n) e
               \<and> mapSpacing (Some (showNat n @ ''px'')) = Some (Str (snd e))))
   \<and> mapSpacing (Some ''9px'') = Some (Str ''2'')
   \<and> mapSpacing (Some ''10px'') = Some (Str ''2'')"
proof (intro conjI impI)
  assume "n \<le> 2 ^ 53 \<and> map_of buildSpacingMap (showNat n @ ''px'') = None"
  then show "\<exists>e. firstNearest buildSpacingMap (int n) e
               \<and> mapSpacing (Some (showNat n @ ''px'')) = Some (Str (snd e))"
    using mapSpacing_px by blast
next
  show "mapSpacing (Some ''9px'') = Some (Str ''2'')" by code_simp
next
  show "mapSpacing (Some ''10px'') = Some (Str ''2'')" by code_simp
qed

theorem spacing_quantization_witness:
  "(10 :: nat) \<le> 2 ^ 53
   \<and> map_of buildSpacingMap (showNat 10 @ ''px'') = None
   \<and> (\<exists>e. firstNearest buildSpacingMap (int 10) e
          \<and> mapSpacing (Some (showNat 10 @ ''px'')) = Some (Str (snd e)))"
proof -
  have "(10 :: nat) \<le> 2 ^ 53" by simp
  moreover have "map_of buildSpacingMap (showNat 10 @ ''px'') = None" by code_simp
  ultimately show ?thesis using spacing_quantization[of 10] by blast
qed

section \<open>Color tokens\<close>

lemma takeWhile_showNat:
  "\<not> isDigit x \<Longrightarrow> takeWhile isDigit (showNat n @ x # r) = showNat n"
proof -
  assume x: "\<not> isDigit x"
  have "takeWhile isDigit (showNat n @ x # r) = showNat n @ takeWhile isDigit (x # r)"
    by (rule takeWhile_append2) (rule showNat_digits)
  with x show ?thesis by simp
qed

lemma dropWhile_showNat:
  "\<not> isDigit x \<Longrightarrow> dropWhile isDigit (showNat n @ x # r) = x # r"
proof -
  assume x: "\<not> isDigit x"
  have "dropWhile isDigit (showNat n @ x # r) = dropWhile isDigit (x # r)"
    by (rule dropWhile_append2) (rule showNat_digits)
  with x show ?thesis by simp
qed

lemma digitsThen_showNat:
  "\<not> isDigit x \<Longrightarrow> digitsThen (showNat n @ x # r) x = Some (showNat n, r)"
  by (simp add: digitsThen_def takeWhile_showNat dropWhile_showNat showNat_nonempty)

lemma dropWhile_space_showNat:
  assumes "list_all isSpace ws"
  shows "dropWhile isSpace (ws @ showNat n @ r) = showNat n @ r"
proof -
  obtain c cs where s: "showNat n = c # cs" and c: "isDigit c" using showNat_Cons by blast
  have "dropWhile isSpace (ws @ showNat n @ r) = dropWhile isSpace (showNat n @ r)"
    using assms by (intro dropWhile_append2) (simp add: list_all_iff)
  also have "\<dots> = showNat n @ r" using c by (simp add: s isDigit_not_space)
  finally show ?thesis .
qed

lemma comma_paren_not_digit: "\<not> isDigit CHR '',''" "\<not> isDigit CHR '')''"
  by (simp_all add: isDigit_def digitChars_def)

lemma matchRgbAt_rgbText:
  assumes "list_all isSpace ws1" "list_all isSpace ws2"
  shows "matchRgbAt (rgbText r ws1 g ws2 b) = Some (showNat r, showNat g, showNat b)"
proof -
  have d1: "digitsThen (showNat r @ CHR '','' # ws1 @ showNat g @ CHR '','' # ws2 @ showNat b @ '')'') CHR '',''
      = Some (showNat r, ws1 @ showNat g @ CHR '','' # ws2 @ showNat b @ '')'')"
    by (rule digitsThen_showNat) (rule comma_paren_not_digit)
  have s1: "dropWhile isSpace (ws1 @ showNat g @ CHR '','' # ws2 @ showNat b @ '')'')
      = showNat g @ CHR '','' # ws2 @ showNat b @ '')''"
    by (rule dropWhile_space_showNat) (rule assms)
  have d2: "digitsThen (showNat g @ CHR '','' # ws2 @ showNat b @ '')'') CHR '',''
      = Some (showNat g, ws2 @ showNat b @ '')'')"
    by (rule digitsThen_showNat) (rule comma_paren_not_digit)
  have s2: "dropWhile isSpace (ws2 @ showNat b @ '')'') = showNat b @ '')''"
    by (rule dropWhile_space_showNat) (rule assms)
  have d3: "digitsThen (showNat b @ CHR '')'' # []) CHR '')'' = Some (showNat b, [])"
    by (rule digitsThen_showNat) (rule comma_paren_not_digit)
  show ?thesis
    by (simp add: matchRgbAt_def rgbText_def d1 s1 d2 s2 d3)
qed

lemma searchRgb_rgbText:
  assumes "list_all isSpace ws1" "list_all isSpace ws2"
  shows "searchRgb (rgbText r ws1 g ws2 b) = Some (showNat r, showNat g, showNat b)"
proof -
  have "rgbText r ws1 g ws2 b = CHR ''r'' # tl (rgbText r ws1 g ws2 b)"
    by (simp add: rgbText_def)
  then have "searchRgb (rgbText r ws1 g ws2 b)
      = (case matchRgbAt (rgbText r ws1 g ws2 b) of Some m \<Rightarrow> Some m
         | None \<Rightarrow> searchRgb (tl (rgbText r ws1 g ws2 b)))"
    by (metis searchRgb.simps(2))
  then show ?thesis by (simp add: matchRgbAt_rgbText[OF assms])
qed

lemma showHex_byte: "n < 256 \<Longrightarrow> hex2 (showNat n) = hexByte n"
proof -
  assume n: "n < 256"
  show ?thesis
  proof (cases "n < 16")
    case True
    then have "showHex n = [hexChars ! n]" by (simp add: showHex.simps[of n])
    with True show ?thesis
      by (simp add: hex2_def hexByte_def readNat_showNat hexChars_def)
  next
    case False
    with n have d: "n div 16 < 16" by simp
    have "showHex n = showHex (n div 16) @ [hexChars ! (n mod 16)]"
      using False by (simp add: showHex.simps[of n])
    also have "showHex (n div 16) = [hexChars ! (n div 16)]"
      using d by (simp add: showHex.simps[of "n div 16"])
    finally show ?thesis by (simp add: hex2_def hexByte_def readNat_showNat)
  qed
qed

lemma lowerChar_hex_all: "list_all (\<lambda>k. lowerChar (hexChars ! k) = hexChars ! k) [0 ..< 16]"
  by code_simp

lemma lowerChar_hex: "k < 16 \<Longrightarrow> lowerChar (hexChars ! k) = hexChars ! k"
  using lowerChar_hex_all by (simp add: list_all_iff)

lemma toLowerCase_hexColor:
  assumes "r < 256" "g < 256" "b < 256"
  shows "toLowerCase (hexColor r g b) = hexColor r g b"
proof -
  have "n < 256 \<Longrightarrow> map lowerChar (hexByte n) = hexByte n" for n
    by (simp add: hexByte_def lowerChar_hex)
  then show ?thesis
    using assms
    by (simp add: toLowerCase_def hexColor_def) (simp add: lowerChar_def upperChars_def lowerChars_def)
qed

lemma normalizeColor_rgbText:
  assumes "r < 256" "g < 256" "b < 256" "list_all isSpace ws1" "list_all isSpace ws2"
  shows "normalizeColor (Some (rgbText r ws1 g ws2 b)) = hexColor r g b"
proof -
  have t: "truthy (Some (rgbText r ws1 g ws2 b))" by (simp add: truthy_def rgbText_def)
  have "normalizeColor (Some (rgbText r ws1 g ws2 b))
      = toLowerCase (''#'' @ hex2 (showNat r) @ hex2 (showNat g) @ hex2 (showNat b))"
    using t by (simp add: normalizeColor_def idOrEmpty_def searchRgb_rgbText[OF assms(4,5)])
  also have "\<dots> = toLowerCase (hexColor r g b)"
    using assms(1-3) by (simp add: showHex_byte hexColor_def)
  also have "\<dots> = hexColor r g b" by (rule toLowerCase_hexColor) (rule assms)+
  finally show ?thesis .
qed

lemma color_keys_hash: "list_all (\<lambda>k. hd k = CHR ''#'' \<and> toLowerCase k = k) (map fst buildColorMap)"
  by code_simp

lemma proto_keys_letters: "list_all (\<lambda>k. hd k \<noteq> CHR ''#'' \<and> hd k \<noteq> CHR ''r'') objectPrototypeKeys"
  by code_simp

lemma map_of_color_key:
  "map_of buildColorMap c = Some t \<Longrightarrow> hd c = CHR ''#'' \<and> toLowerCase c = c"
proof -
  assume "map_of buildColorMap c = Some t"
  then have "c \<in> set (map fst buildColorMap)" by (auto dest: map_of_SomeD intro: rev_image_eqI)
  with color_keys_hash show ?thesis by (auto simp: list_all_iff)
qed

lemma rgbText_no_key: "map_of buildColorMap (rgbText r ws1 g ws2 b) = None"
proof (cases "map_of buildColorMap (rgbText r ws1 g ws2 b)")
  case None
  then show ?thesis .
next
  case (Some t)
  from map_of_color_key[OF this] show ?thesis by (simp add: rgbText_def)
qed

lemma rgbText_not_inherited: "rgbText r ws1 g ws2 b \<notin> set objectPrototypeKeys"
  using proto_keys_letters by (auto simp: list_all_iff rgbText_def)

lemma hexColor_not_inherited: "hexColor r g b \<notin> set objectPrototypeKeys"
  using proto_keys_letters by (auto simp: list_all_iff hexColor_def)

lemma mapColor_rgbText:
  assumes "r < 256" "g < 256" "b < 256" "list_all isSpace ws1" "list_all isSpace ws2"
  shows "mapColor (Some (rgbText r ws1 g ws2 b))
     = map_option Str (map_of buildColorMap (hexColor r g b))"
proof -
  have t: "truthy (Some (rgbText r ws1 g ws2 b))" by (simp add: truthy_def rgbText_def)
  have raw: "getProp buildColorMap (rgbText r ws1 g ws2 b) = None"
    using rgbText_no_key rgbText_not_inherited by (simp add: getProp_def)
  have norm: "getProp buildColorMap (hexColor r g b)
      = map_option Str (map_of buildColorMap (hexColor r g b))"
    using hexColor_not_inherited by (simp add: getProp_def split: option.splits)
  show ?thesis
    using t by (simp add: mapColor_def idOrEmpty_def raw normalizeColor_rgbText[OF assms] norm
        split: option.splits)
qed

lemma searchRgb_none: "\<not> includesStr c ''rgb('' \<Longrightarrow> searchRgb c = None"
  by (induction c) (auto simp: matchRgbAt_def)

lemma mapColor_plain:
  assumes "c \<noteq> []" "\<not> includesStr c ''rgb(''"
    "c \<notin> set objectPrototypeKeys" "toLowerCase c \<notin> set objectPrototypeKeys"
  shows "mapColor (Some c) = map_option Str (map_of buildColorMap (toLowerCase c))"
proof -
  have n: "normalizeColor (Some c) = toLowerCase c"
    using assms(1) by (simp add: normalizeColor_def truthy_def idOrEmpty_def searchRgb_none[OF assms(2)])
  show ?thesis
  proof (cases "map_of buildColorMap c")
    case None
    then show ?thesis
      using assms(1,3,4) by (simp add: mapColor_def truthy_def idOrEmpty_def getProp_def n
          split: option.splits)
  next
    case (Some t)
    then have "toLowerCase c = c" using map_of_color_key by blast
    with Some show ?thesis
      using assms(1) by (simp add: mapColor_def truthy_def idOrEmpty_def getProp_def)
  qed
qed

text \<open>
  C3, as stated, fails: \<open>rgb(59, 130, 246)\<close>, the form in which a browser reports a
  computed color, is no key of the color dictionary, and \<open>mapColor\<close> resolves it to
  \<open>blue-500\<close> through \<open>normalizeColor\<close>.
\<close>

theorem color_normalized_lookup:
  "map_of buildColorMap ''rgb(59, 130, 246)'' = None
   \<and> mapColor (Some ''rgb(59, 130, 246)'') = Some (Str ''blue-500'')"
  by code_simp

text \<open>
  C3, amended. \<open>mapColor\<close> has no nearest-match fallback; a token comes from an exact
  lookup after normalisation. A raw color that does not contain \<open>rgb(\<close> gets the token
  of the dictionary key equal to the raw string in lower case, and \<open>null\<close> when there
  is no such key (a raw color that is, as written or in lower case, the name of a
  property every object inherits is left out). A raw color \<open>rgb(r, g, b)\<close> with
  components at most 255 gets the token of the key \<open>#rrggbb\<close>, and \<open>null\<close> when there
  is no such key. An absent or empty color gets \<open>null\<close>.
\<close>

theorem color_exact_lookup_only:
  "(c \<noteq> [] \<and> \<not> includesStr c ''rgb(''
      \<and> c \<notin> set objectPrototypeKeys \<and> toLowerCase c \<notin> set objectPrototypeKeys
      \<longrightarrow> mapColor (Some c) = map_option Str (map_of buildColorMap (toLowerCase c)))
   \<and> (r < 256 \<and> g < 256 \<and> b < 256 \<and> list_all isSpace ws1 \<and> list_all isSpace ws2
      \<longrightarrow> mapColor (Some (rgbText r ws1 g ws2 b))
          = map_option Str (map_of buildColorMap (hexColor r g b)))
   \<and> mapColor None = None
   \<and> mapColor (Some []) = None"
proof (intro conjI impI)
  assume "c \<noteq> [] \<and> \<not> includesStr c ''rgb(''
      \<and> c \<notin> set objectPrototypeKeys \<and> toLowerCase c \<notin> set objectPrototypeKeys"
  then show "mapColor (Some c) = map_option Str (map_of buildColorMap (toLowerCase c))"
    using mapColor_plain by blast
next
  assume "r < 256 \<and> g < 256 \<and> b < 256 \<and> list_all isSpace ws1 \<and> list_all isSpace ws2"
  then show "mapColor (Some (rgbText r ws1 g ws2 b))
          = map_option Str (map_of buildColorMap (hexColor r g b))"
    using mapColor_rgbText by blast
next
  show "mapColor None = None" by (simp add: mapColor_def truthy_def)
next
  show "mapColor (Some []) = None" by (simp add: mapColor_def truthy_def)
qed

theorem color_exact_lookup_only_witness:
  "\<not> includesStr ''HotPink'' ''rgb(''
   \<and> list_all isSpace '' ''
   \<and> rgbText 59 '' '' 130 '' '' 246 = ''rgb(59, 130, 246)''
   \<and> mapColor (Some ''HotPink'') = None
   \<and> mapColor (Some ''#FFFFFF'') = Some (Str ''white'')
   \<and> mapColor (Some ''rgb(59, 130, 246)'') = Some (Str ''blue-500'')
   \<and> mapColor (Some ''rgb(59, 130, 247)'') = None"
proof -
  have h1: "''HotPink'' \<noteq> [] \<and> \<not> includesStr ''HotPink'' ''rgb(''
      \<and> ''HotPink'' \<notin> set objectPrototypeKeys
      \<and> toLowerCase ''HotPink'' \<notin> set objectPrototypeKeys"
    by code_simp
  have v1: "map_option Str (map_of buildColorMap (toLowerCase ''HotPink'')) = None"
    by code_simp
  have h2: "''#FFFFFF'' \<noteq> [] \<and> \<not> includesStr ''#FFFFFF'' ''rgb(''
      \<and> ''#FFFFFF'' \<notin> set objectPrototypeKeys
      \<and> toLowerCase ''#FFFFFF'' \<notin> set objectPrototypeKeys"
    by code_simp
  have v2: "map_option Str (map_of buildColorMap (toLowerCase ''#FFFFFF'')) = Some (Str ''white'')"
    by code_simp
  have h3: "(59 :: nat) < 256 \<and> (130 :: nat) < 256 \<and> (246 :: nat) < 256 \<and> (247 :: nat) < 256
      \<and> list_all isSpace '' ''"
    by (simp add: isSpace_def)
  have t3: "rgbText 59 '' '' 130 '' '' 246 = ''rgb(59, 130, 246)''"
    "rgbText 59 '' '' 130 '' '' 247 = ''rgb(59, 130, 247)''"
    by code_simp+
  have v3: "map_option Str (map_of buildColorMap (hexColor 59 130 246)) = Some (Str ''blue-500'')"
    "map_option Str (map_of buildColorMap (hexColor 59 130 247)) = None"
    by code_simp+
  from color_exact_lookup_only[of "''HotPink''" 59 130 246 "'' ''" "'' ''"] h1 h3
  have "mapColor (Some ''HotPink'') = map_option Str (map_of buildColorMap (toLowerCase ''HotPink''))"
    and "mapColor (Some (rgbText 59 '' '' 130 '' '' 246))
      = map_option Str (map_of buildColorMap (hexColor 59 130 246))"
    by blast+
  then have a: "mapColor (Some ''HotPink'') = None"
    and c: "mapColor (Some ''rgb(59, 130, 246)'') = Some (Str ''blue-500'')"
    by (simp_all only: v1 v3 t3)
  from color_exact_lookup_only[of "''#FFFFFF''" 59 130 247 "'' ''" "'' ''"] h2 h3
  have "mapColor (Some ''#FFFFFF'') = map_option Str (map_of buildColorMap (toLowerCase ''#FFFFFF''))"
    and "mapColor (Some (rgbText 59 '' '' 130 '' '' 247))
      = map_option Str (map_of buildColorMap (hexColor 59 130 247))"
    by blast+
  then have b: "mapColor (Some ''#FFFFFF'') = Some (Str ''white'')"
    and d: "mapColor (Some ''rgb(59, 130, 247)'') = None"
    by (simp_all only: v2 v3 t3)
  from h1 h3 t3 a b c d show ?thesis by simp
qed

section \<open>Navigation entries\<close>

lemma fold_pushNavigation:
  "fold pushNavigation secs navs
     = navs @ map navigationOf (filter (\<lambda>sec. purpose sec = ''navigation'') secs)"
  by (induction secs arbitrary: navs) (auto simp: pushNavigation_def)

lemma mapNavigationComponents_filter:
  "mapNavigationComponents report
     = map navigationOf (filter (\<lambda>sec. purpose sec = ''navigation'') (sections report))"
  by (simp add: mapNavigationComponents_def fold_pushNavigation)

text \<open>
  C9, as stated, fails: a \<open>nav\<close> element with the class \<open>navbar\<close> becomes a navigation
  entry, its classes hold neither keyword, and its layout type is \<open>block\<close>, not
  \<open>flex\<close>.
\<close>

theorem navigation_layout_defaults_to_block:
  "\<not> includesStr (toLowerCase (join [''navbar''] '' '')) ''grid''
   \<and> \<not> includesStr (toLowerCase (join [''navbar''] '' '')) ''flex''
   \<and> map layoutN
        (mapNavigationComponents
           (generateAnalysisReport [] (Some (Node ''nav'' None [''navbar''] [] [] None []))))
      = [''block'']"
  by code_simp

text \<open>
  C9, amended. Every navigation entry -- there is one for each section whose purpose
  is \<open>navigation\<close> -- has the layout type \<open>grid\<close> when its classes, joined with spaces
  and in lower case, contain \<open>grid\<close>; otherwise \<open>flex\<close> when they contain \<open>flex\<close>; and
  \<open>block\<close> when they contain neither.
\<close>

theorem navigation_layout_type:
  "\<forall>e \<in> set (mapNavigationComponents report).
     layoutN e =
       (if includesStr (toLowerCase (join (classesN e) '' '')) ''grid'' then ''grid''
        else if includesStr (toLowerCase (join (classesN e) '' '')) ''flex'' then ''flex''
        else ''block'')"
  by (auto simp: mapNavigationComponents_filter navigationOf_def detectLayoutType_def)

theorem navigation_layout_type_witness:
  "navigationOf (sectionOf gridNav)
     \<in> set (mapNavigationComponents (generateAnalysisReport [] (Some gridNav)))
   \<and> layoutN (navigationOf (sectionOf gridNav)) =
       (if includesStr (toLowerCase (join (classesN (navigationOf (sectionOf gridNav))) '' '')) ''grid''
        then ''grid''
        else if includesStr (toLowerCase (join (classesN (navigationOf (sectionOf gridNav))) '' '')) ''flex''
        then ''flex''
        else ''block'')
   \<and> layoutN (navigationOf (sectionOf gridNav)) = ''grid''"
proof -
  have m: "navigationOf (sectionOf gridNav)
     \<in> set (mapNavigationComponents (generateAnalysisReport [] (Some gridNav)))"
    by code_simp
  have g: "layoutN (navigationOf (sectionOf gridNav)) = ''grid''"
    by code_simp
  from m navigation_layout_type[of "generateAnalysisReport [] (Some gridNav)"] g
  show ?thesis by blast
qed

section \<open>Page sections\<close>

lemma fold_pushSection:
  "fold pushSection ns acc
     = acc @ map sectionOf (filter (\<lambda>n. tag n \<in> set sectionSelectors) ns)"
  by (induction ns arbitrary: acc) (auto simp: pushSection_def)

lemma identifyPageSections_within:
  "identifyPageSections (Some t)
     = map sectionOf (filter (\<lambda>n. tag n \<in> set sectionSelectors) (nodesWithin 10 0 t))"
  by (simp add: identifyPageSections_def traverseNodeS_within fold_pushSection)

lemma sectionSelectors_split: "sectionSelectors = landmarkTags @ roleSelectors"
  by (simp add: sectionSelectors_def landmarkTags_def roleSelectors_def)

lemma roleSelector_bracket: "s \<in> set roleSelectors \<Longrightarrow> \<not> elementName s"
  unfolding roleSelectors_def elementName_def by auto

lemma elementName_selector:
  "elementName s \<Longrightarrow> s \<in> set sectionSelectors \<longleftrightarrow> s \<in> set landmarkTags"
  using roleSelector_bracket by (auto simp: sectionSelectors_split)

lemma set_nodesWithin: "set (nodesWithin bound depth n) \<subseteq> set (preorder n)"
proof (induction n arbitrary: depth rule: preorder.induct)
  case (1 n)
  show ?case
    by (subst nodesWithin.simps, subst preorder.simps) (use 1 in auto)
qed

text \<open>
  C7, as stated, fails: a \<open>section\<close> element is none of header, nav, main, aside and
  footer and has no role, and it is reported as a section; so is an \<open>article\<close>.
\<close>

theorem sections_include_section_tag:
  "''section'' \<notin> set [''header'', ''nav'', ''main'', ''aside'', ''footer'']
   \<and> map_of (attributes (Node ''section'' None [] [] [] None [])) ''role'' = None
   \<and> map tagS (identifyPageSections (Some (Node ''section'' None [] [] [] None [])))
       = [''section'']"
  by code_simp

text \<open>
  The selectors of the list are compared with the tag, which they never equal: a
  \<open>div\<close> with the role \<open>navigation\<close> is not reported.
\<close>

lemma role_is_not_consulted:
  "identifyPageSections (Some (Node ''div'' None [] [(''role'', ''navigation'')] [] None [])) = []"
  by code_simp

text \<open>
  C7, amended. In a tree whose tags are element names and where no node has the role
  navigation, main or contentinfo, the sections are, in pre-order, exactly the nodes
  at depth at most 10 (the root is at depth 0) whose tag is header, nav, main,
  section, article, aside or footer. Nodes with such a role are left out of the
  statement.
\<close>

theorem sections_are_landmark_tags:
  "(\<forall>n \<in> set (preorder t). elementName (tag n) \<and> \<not> hasLandmarkRole n)
   \<longrightarrow> identifyPageSections (Some t)
        = map sectionOf (filter (\<lambda>n. tag n \<in> set landmarkTags) (nodesWithin 10 0 t))"
proof
  assume h: "\<forall>n \<in> set (preorder t). elementName (tag n) \<and> \<not> hasLandmarkRole n"
  have "filter (\<lambda>n. tag n \<in> set sectionSelectors) (nodesWithin 10 0 t)
      = filter (\<lambda>n. tag n \<in> set landmarkTags) (nodesWithin 10 0 t)"
  proof (rule filter_cong[OF refl])
    fix n assume "n \<in> set (nodesWithin 10 0 t)"
    then have "n \<in> set (preorder t)" using set_nodesWithin by blast
    with h show "(tag n \<in> set sectionSelectors) = (tag n \<in> set landmarkTags)"
      using elementName_selector by blast
  qed
  then show "identifyPageSections (Some t)
        = map sectionOf (filter (\<lambda>n. tag n \<in> set landmarkTags) (nodesWithin 10 0 t))"
    by (simp add: identifyPageSections_within)
qed

theorem sections_are_landmark_tags_witness:
  "list_all (\<lambda>n. elementName (tag n) \<and> \<not> hasLandmarkRole n) (preorder page)
   \<and> identifyPageSections (Some page)
       = map sectionOf (filter (\<lambda>n. tag n \<in> set landmarkTags) (nodesWithin 10 0 page))
   \<and> map tagS (identifyPageSections (Some page)) = [''header'', ''article'', ''footer'']"
proof -
  have a: "list_all (\<lambda>n. elementName (tag n) \<and> \<not> hasLandmarkRole n) (preorder page)"
    by code_simp
  then have "\<forall>n \<in> set (preorder page). elementName (tag n) \<and> \<not> hasLandmarkRole n"
    by (simp add: list_all_iff)
  with sections_are_landmark_tags[of page]
  have b: "identifyPageSections (Some page)
       = map sectionOf (filter (\<lambda>n. tag n \<in> set landmarkTags) (nodesWithin 10 0 page))"
    by blast
  have c: "map tagS (identifyPageSections (Some page)) = [''header'', ''article'', ''footer'']"
    by code_simp
  from a b c show ?thesis by blast
qed

section \<open>Depth of the walks\<close>

lemma pushLayout_plain: "pushLayout (Node ''div'' None [] [] [] None cs) acc = acc"
  by (simp add: pushLayout_def detectLayout_def style_def)

lemma pushLayout_flexLeaf: "pushLayout flexLeaf acc \<noteq> acc"
  by (simp add: pushLayout_def detectLayout_def style_def flexLeaf_def)

lemma layouts_chain:
  "fold pushLayout (preorder (chain k flexLeaf)) acc = pushLayout flexLeaf acc"
proof (induction k)
  case 0
  show ?case by (simp add: preorder.simps[of flexLeaf]) (simp add: flexLeaf_def)
next
  case (Suc k)
  then show ?case
    by (simp add: preorder.simps[of "Node ''div'' None [] [] [] None [chain k flexLeaf]"]
        pushLayout_plain)
qed

lemma layouts_chain_within:
  "bound < depth + k \<Longrightarrow> fold pushLayout (nodesWithin bound depth (chain k flexLeaf)) acc = acc"
proof (induction k arbitrary: depth)
  case 0
  then show ?case by (simp add: nodesWithin.simps)
next
  case (Suc k)
  show ?case
  proof (cases "bound < depth")
    case True
    then show ?thesis by (simp add: nodesWithin.simps)
  next
    case False
    have "bound < (depth + 1) + k" using Suc.prems by simp
    from Suc.IH[OF this] False show ?thesis
      by (simp add: nodesWithin.simps[of _ _ "Node ''div'' None [] [] [] None [chain k flexLeaf]"]
          pushLayout_plain)
  qed
qed

text \<open>
  C8, as stated, fails: the layout scan has no depth bound. Whatever the bound, a
  flex container below it, at the end of a chain of \<open>div\<close> elements, is still
  reported.
\<close>

theorem layout_scan_has_no_depth_bound:
  "\<not> (\<exists>bound. \<forall>t. analyzeLayoutPatterns (Some t) = fold pushLayout (nodesWithin bound 0 t) [])"
proof
  assume "\<exists>bound. \<forall>t. analyzeLayoutPatterns (Some t) = fold pushLayout (nodesWithin bound 0 t) []"
  then obtain bound where
    b: "\<forall>t. analyzeLayoutPatterns (Some t) = fold pushLayout (nodesWithin bound 0 t) []"
    by blast
  let ?t = "chain (Suc bound) flexLeaf"
  have "analyzeLayoutPatterns (Some ?t) = pushLayout flexLeaf []"
    by (simp only: analyzeLayoutPatterns_def option.case traverseNodeL_preorder layouts_chain)
  moreover have "fold pushLayout (nodesWithin bound 0 ?t) [] = []"
    by (rule layouts_chain_within) simp
  ultimately show False using b pushLayout_flexLeaf[of "[]"] by metis
qed

text \<open>
  C8, amended. Only the section scan bounds its depth: it visits the nodes at depth
  at most 10, the root being at depth 0, truncates each branch below, and reports the
  sections among the nodes it visits. The component, layout, token and pattern scans
  have no depth bound: they visit every node of the tree in pre-order, at any depth.
  (The model has no call stack. On a tree too deep for the engine's stack the
  JavaScript walks throw a \<open>RangeError\<close>; such trees are outside this statement.)
\<close>

theorem walks_and_depth:
  "identifyPageSections (Some t) = fold pushSection (nodesWithin 10 0 t) []
   \<and> analyzeComponentStructure (Some t) = componentsOf (preorder t)
   \<and> analyzeLayoutPatterns (Some t) = fold pushLayout (preorder t) []
   \<and> extractDesignTokens (Some t) = fold collectTokens (preorder t) emptyTokens
   \<and> detectRepeatedPatterns (Some t) = repeatedOnly (fold pushNode (preorder t) [])"
  by (simp add: identifyPageSections_def traverseNodeS_within analyzeComponentStructure_preorder
      analyzeLayoutPatterns_def traverseNodeL_preorder extractDesignTokens_def
      traverseNodeT_preorder detectRepeatedPatterns_def traverseNodeP_preorder)

theorem walks_and_depth_witness:
  "identifyPageSections (Some (chain 11 navLeaf)) = []
   \<and> map tagS (identifyPageSections (Some (chain 10 navLeaf))) = [''nav'']
   \<and> map tagL (analyzeLayoutPatterns (Some (chain 11 flexLeaf))) = [''div'']"
proof -
  have a: "fold pushSection (nodesWithin 10 0 (chain 11 navLeaf)) [] = []"
    by code_simp
  have b: "map tagS (fold pushSection (nodesWithin 10 0 (chain 10 navLeaf)) []) = [''nav'']"
    by code_simp
  have c: "map tagL (fold pushLayout (preorder (chain 11 flexLeaf)) []) = [''div'']"
    by code_simp
  show ?thesis
    using walks_and_depth[of "chain 11 navLeaf"] walks_and_depth[of "chain 10 navLeaf"]
      walks_and_depth[of "chain 11 flexLeaf"]
    by (simp only: a b c)
qed

section \<open>The report\<close>




subsection \<open>Two runs\<close>

text \<open>
  The keys of the pattern dictionaries all hold a colon, so none is an array index
  and \<open>Object.entries\<close> lists them in insertion order, as the model has it.
\<close>

lemma signature_has_colon: "CHR '':'' \<in> set (generateComponentSignature (Some n))"
  by (simp add: generateComponentSignature_def)

lemma keyset_pushSignature: "fst ` set (pushSignature m s n) = insert s (fst ` set m)"
  by (induction m s n rule: pushSignature.induct) auto

lemma keys_fold_pushNode:
  "fst ` set (fold pushNode xs m)
     = fst ` set m \<union> (\<lambda>n. generateComponentSignature (Some n)) ` set xs"
proof (induction xs arbitrary: m)
  case Nil
  show ?case by simp
next
  case (Cons x xs)
  have "fst ` set (fold pushNode (x # xs) m)
      = fst ` set (pushNode x m) \<union> (\<lambda>n. generateComponentSignature (Some n)) ` set xs"
    by (simp add: Cons.IH)
  also have "fst ` set (pushNode x m) = insert (generateComponentSignature (Some x)) (fst ` set m)"
    unfolding pushNode_def by (rule keyset_pushSignature)
  finally show ?case by auto
qed

lemma keys_repeatedOnly: "set (map fst (repeatedOnly m)) \<subseteq> set (map fst m)"
proof -
  have "map fst (repeatedOnly m) = map fst (filter (\<lambda>(sig, nodes). length nodes > 1) m)"
    by (auto simp: repeatedOnly_def)
  then show ?thesis by auto
qed

lemma pattern_keys_have_colon:
  "list_all (\<lambda>k. CHR '':'' \<in> set k) (map fst (detectRepeatedPatterns (Some t)))"
proof -
  have d: "detectRepeatedPatterns (Some t) = repeatedOnly (fold pushNode (preorder t) [])"
    by (simp add: detectRepeatedPatterns_def traverseNodeP_preorder)
  have "k \<in> set (map fst (detectRepeatedPatterns (Some t))) \<Longrightarrow> CHR '':'' \<in> set k" for k
  proof -
    assume "k \<in> set (map fst (detectRepeatedPatterns (Some t)))"
    then have "k \<in> set (map fst (fold pushNode (preorder t) []))"
      unfolding d using keys_repeatedOnly by blast
    then have "k \<in> (\<lambda>n. generateComponentSignature (Some n)) ` set (preorder t)"
      using keys_fold_pushNode[of "preorder t" "[]"] by simp
    then obtain n where "k = generateComponentSignature (Some n)" by blast
    then show ?thesis using signature_has_colon by simp
  qed
  then show ?thesis unfolding list_all_iff by blast
qed

text \<open>
  C4, as stated, fails: the report that \<open>generateAnalysisReport\<close> returns holds the
  clock reading, so two runs on the same tree a millisecond apart return different
  reports.
\<close>

theorem report_carries_timestamp:
  "generateAnalysisReport ''2026-11-03T10:00:00.000Z'' (Some threeButtons)
     \<noteq> generateAnalysisReport ''2026-11-03T10:00:00.001Z'' (Some threeButtons)"
  by (simp add: generateAnalysisReport_def)

text \<open>
  C4, amended. The components, layouts, design tokens, repeated patterns and sections
  of the report are computed from the nodes of the tree alone, taken in pre-order:
  the components are the records of the eligible nodes, the layouts and the tokens
  are accumulated node by node, the repeated patterns come from the groups of nodes
  with the same signature, listed in the order in which the signatures first occur,
  and the sections from the nodes at depth at most 10. The clock reading of the run
  is the \<open>timestamp\<close> field and enters nothing else, so two runs on the same tree
  return reports that differ in that field only.
\<close>

theorem report_core_from_tree:
  "generateAnalysisReport now (Some t) =
     \<lparr> components = map componentOf (filter eligible (preorder t)),
       layouts = fold pushLayout (preorder t) [],
       designTokensR = fold collectTokens (preorder t) emptyTokens,
       repeatedPatterns = repeatedOnly (fold pushNode (preorder t) []),
       sections =
         map sectionOf (filter (\<lambda>n. tag n \<in> set sectionSelectors) (nodesWithin 10 0 t)),
       timestamp = now \<rparr>
   \<and> list_all (\<lambda>k. CHR '':'' \<in> set k)
        (map fst (repeatedPatterns (generateAnalysisReport now (Some t))))
   \<and> generateAnalysisReport now tree = (generateAnalysisReport now' tree)\<lparr>timestamp := now\<rparr>"
proof (intro conjI)
  show "generateAnalysisReport now (Some t) =
     \<lparr> components = map componentOf (filter eligible (preorder t)),
       layouts = fold pushLayout (preorder t) [],
       designTokensR = fold collectTokens (preorder t) emptyTokens,
       repeatedPatterns = repeatedOnly (fold pushNode (preorder t) []),
       sections =
         map sectionOf (filter (\<lambda>n. tag n \<in> set sectionSelectors) (nodesWithin 10 0 t)),
       timestamp = now \<rparr>"
  proof -
    have c: "analyzeComponentStructure (Some t) = map componentOf (filter eligible (preorder t))"
      by (simp add: analyzeComponentStructure_preorder componentsOf_def
          isComponentLike_eligible[abs_def])
    have l: "analyzeLayoutPatterns (Some t) = fold pushLayout (preorder t) []"
      by (simp add: analyzeLayoutPatterns_def traverseNodeL_preorder)
    have d: "extractDesignTokens (Some t) = fold collectTokens (preorder t) emptyTokens"
      by (simp add: extractDesignTokens_def traverseNodeT_preorder)
    have p: "detectRepeatedPatterns (Some t) = repeatedOnly (fold pushNode (preorder t) [])"
      by (simp add: detectRepeatedPatterns_def traverseNodeP_preorder)
    show ?thesis
      unfolding generateAnalysisReport_def c l d p identifyPageSections_within by (rule refl)
  qed
next
  show "list_all (\<lambda>k. CHR '':'' \<in> set k)
        (map fst (repeatedPatterns (generateAnalysisReport now (Some t))))"
    using pattern_keys_have_colon[of t] by (simp add: generateAnalysisReport_def)
next
  show "generateAnalysisReport now tree = (generateAnalysisReport now' tree)\<lparr>timestamp := now\<rparr>"
    by (simp add: generateAnalysisReport_def)
qed


end
